theory Spec2Isabelle
  imports Main "HOL-Library.Sublist" "HOL-Library.AList"
begin

section \<open>Python values and the operations the monitor applies to them\<close>

text \<open>
  The monitor works on the values that \<^verbatim>\<open>json.loads\<close> and \<^verbatim>\<open>resp.json()\<close> return:
  \<^verbatim>\<open>None\<close>, booleans, integers, strings, lists and dictionaries with string keys.
  Dictionaries keep their insertion order and are association lists here.
  JSON numbers with a fraction or an exponent become Python floats; they are not part
  of this model.
\<close>

datatype json =
    JNull
  | JBool bool
  | JInt int
  | JStr string
  | JArr "json list"
  | JObj "(string \<times> json) list"

text \<open>The exceptions that the modelled statements can raise.\<close>

datatype py_error = AttributeError | TypeError | KeyError | IndexError

text \<open>Sequencing of statements that may raise: the first exception wins.\<close>

definition thn :: "py_error + 'a \<Rightarrow> ('a \<Rightarrow> py_error + 'b) \<Rightarrow> py_error + 'b" where
  "thn m f = (case m of Inl e \<Rightarrow> Inl e | Inr x \<Rightarrow> f x)"

text \<open>Truth value of an object, as \<^verbatim>\<open>if x:\<close> and \<^verbatim>\<open>not x\<close> test it.\<close>

fun truthy :: "json \<Rightarrow> bool" where
  "truthy JNull = False"
| "truthy (JBool b) = b"
| "truthy (JInt n) = (n \<noteq> 0)"
| "truthy (JStr s) = (s \<noteq> [])"
| "truthy (JArr xs) = (xs \<noteq> [])"
| "truthy (JObj kvs) = (kvs \<noteq> [])"

text \<open>\<^verbatim>\<open>d.get(key, default)\<close>: only dictionaries have the method.\<close>

fun py_get :: "json \<Rightarrow> string \<Rightarrow> json \<Rightarrow> py_error + json" where
  "py_get (JObj kvs) k d = Inr (case map_of kvs k of Some v \<Rightarrow> v | None \<Rightarrow> d)"
| "py_get _ k d = Inl AttributeError"

text \<open>
  \<^verbatim>\<open>key in x\<close> for a string key: key membership for a dictionary, element membership
  for a list, substring test for a string, \<^verbatim>\<open>TypeError\<close> for anything else.
\<close>

fun py_in :: "string \<Rightarrow> json \<Rightarrow> py_error + bool" where
  "py_in k (JObj kvs) = Inr (map_of kvs k \<noteq> None)"
| "py_in k (JArr xs) = Inr (JStr k \<in> set xs)"
| "py_in k (JStr s) = Inr (sublist k s)"
| "py_in k _ = Inl TypeError"

text \<open>\<^verbatim>\<open>x[key]\<close> for a string key.\<close>

fun py_getitem :: "json \<Rightarrow> string \<Rightarrow> py_error + json" where
  "py_getitem (JObj kvs) k = (case map_of kvs k of Some v \<Rightarrow> Inr v | None \<Rightarrow> Inl KeyError)"
| "py_getitem _ k = Inl TypeError"

text \<open>
  The elements a \<^verbatim>\<open>for\<close> loop visits: the items of a list, the characters of a
  string, the keys of a dictionary.
\<close>

fun py_iter :: "json \<Rightarrow> py_error + json list" where
  "py_iter (JArr xs) = Inr xs"
| "py_iter (JStr s) = Inr (map (\<lambda>c. JStr [c]) s)"
| "py_iter (JObj kvs) = Inr (map (\<lambda>kv. JStr (fst kv)) kvs)"
| "py_iter _ = Inl TypeError"

text \<open>\<^verbatim>\<open>x > 0\<close>: defined on integers and booleans (\<^verbatim>\<open>True\<close> counts as 1).\<close>

fun py_gt0 :: "json \<Rightarrow> py_error + bool" where
  "py_gt0 (JInt n) = Inr (0 < n)"
| "py_gt0 (JBool b) = Inr b"
| "py_gt0 _ = Inl TypeError"

text \<open>Decimal digits of an integer, as \<^verbatim>\<open>str\<close> prints it.\<close>

definition digit :: "nat \<Rightarrow> char" where
  "digit d =
     (if d = 0 then CHR ''0'' else if d = 1 then CHR ''1'' else if d = 2 then CHR ''2''
      else if d = 3 then CHR ''3'' else if d = 4 then CHR ''4'' else if d = 5 then CHR ''5''
      else if d = 6 then CHR ''6'' else if d = 7 then CHR ''7'' else if d = 8 then CHR ''8''
      else CHR ''9'')"

fun digits :: "nat \<Rightarrow> string" where
  "digits n = (if n < 10 then [digit n] else digits (n div 10) @ [digit (n mod 10)])"

definition show_int :: "int \<Rightarrow> string" where
  "show_int i = (if i < 0 then CHR ''-'' # digits (nat (- i)) else digits (nat i))"

text \<open>
  \<^verbatim>\<open>str(x)\<close>, also what an f-string field prints. The text of a list or of a
  dictionary is its \<^verbatim>\<open>repr\<close>, the interpreter's own printer, taken as the
  parameter \<open>repr\<close>.
\<close>

fun py_str :: "(json \<Rightarrow> string) \<Rightarrow> json \<Rightarrow> string" where
  "py_str repr JNull = ''None''"
| "py_str repr (JBool b) = (if b then ''True'' else ''False'')"
| "py_str repr (JInt n) = show_int n"
| "py_str repr (JStr s) = s"
| "py_str repr v = repr v"

text \<open>\<^verbatim>\<open>sep.join(parts)\<close>.\<close>

fun join :: "string \<Rightarrow> string list \<Rightarrow> string" where
  "join sep [] = []"
| "join sep [x] = x"
| "join sep (x # y # ys) = x @ sep @ join sep (y # ys)"

text \<open>\<^verbatim>\<open>len(x)\<close> and \<^verbatim>\<open>x[0]\<close>.\<close>

fun py_len :: "json \<Rightarrow> py_error + nat" where
  "py_len (JArr xs) = Inr (length xs)"
| "py_len (JStr s) = Inr (length s)"
| "py_len (JObj kvs) = Inr (length kvs)"
| "py_len _ = Inl TypeError"

fun py_first :: "json \<Rightarrow> py_error + json" where
  "py_first (JArr []) = Inl IndexError"
| "py_first (JArr (x # xs)) = Inr x"
| "py_first (JStr []) = Inl IndexError"
| "py_first (JStr (c # cs)) = Inr (JStr [c])"
| "py_first (JObj kvs) = Inl KeyError"
| "py_first _ = Inl TypeError"

text \<open>\<^verbatim>\<open>k in x and k' in x[k]\<close>, and \<^verbatim>\<open>x[k][k']\<close>.\<close>

definition in2 :: "string \<Rightarrow> string \<Rightarrow> json \<Rightarrow> py_error + bool" where
  "in2 k k' x =
     thn (py_in k x) (\<lambda>b.
       if b then thn (py_getitem x k) (\<lambda>y. py_in k' y) else Inr False)"

definition getitem2 :: "json \<Rightarrow> string \<Rightarrow> string \<Rightarrow> py_error + json" where
  "getitem2 x k k' = thn (py_getitem x k) (\<lambda>y. py_getitem y k')"

text \<open>
  \<^verbatim>\<open>s.strip()\<close>. Characters are code points below 256; the white space among
  them is what \<^verbatim>\<open>str.isspace\<close> accepts there.
\<close>

definition is_space :: "char \<Rightarrow> bool" where
  "is_space c =
     (let n = (of_char c :: nat)
      in (9 \<le> n \<and> n \<le> 13) \<or> (28 \<le> n \<and> n \<le> 32) \<or> n = 133 \<or> n = 160)"

definition strip :: "string \<Rightarrow> string" where
  "strip s = rev (dropWhile is_space (rev (dropWhile is_space s)))"

text \<open>\<^verbatim>\<open>str(k).strip()\<close>, the clean code of a raw product code.\<close>

definition clean_code :: "(json \<Rightarrow> string) \<Rightarrow> json \<Rightarrow> string" where
  "clean_code repr k = strip (py_str repr k)"

text \<open>\<^verbatim>\<open>s.replace(c, r)\<close> for a single character \<open>c\<close>.\<close>

definition replace :: "char \<Rightarrow> string \<Rightarrow> string \<Rightarrow> string" where
  "replace c r s = concat (map (\<lambda>x. if x = c then r else [x]) s)"

text \<open>
  Dictionaries whose keys are arbitrary hashable objects (the listing's product codes).
  Lists and dictionaries are not hashable; \<^verbatim>\<open>True\<close> and \<^verbatim>\<open>1\<close> are the same key,
  as are \<^verbatim>\<open>False\<close> and \<^verbatim>\<open>0\<close>. Assigning to a key that is present keeps the
  key object and its position.
\<close>

fun hashable :: "json \<Rightarrow> bool" where
  "hashable (JArr xs) = False"
| "hashable (JObj kvs) = False"
| "hashable _ = True"

fun key_norm :: "json \<Rightarrow> json" where
  "key_norm (JBool b) = JInt (if b then 1 else 0)"
| "key_norm v = v"

fun dict_set :: "(json \<times> 'v) list \<Rightarrow> json \<Rightarrow> 'v \<Rightarrow> (json \<times> 'v) list" where
  "dict_set [] k v = [(k, v)]"
| "dict_set ((k', v') # kvs) k v =
     (if key_norm k' = key_norm k then (k', v) # kvs else (k', v') # dict_set kvs k v)"

definition py_setitem :: "(json \<times> 'v) list \<Rightarrow> json \<Rightarrow> 'v \<Rightarrow> py_error + (json \<times> 'v) list" where
  "py_setitem d k v = (if hashable k then Inr (dict_set d k v) else Inl TypeError)"

text \<open>\<^verbatim>\<open>d[k]\<close> for a dictionary with string keys and an arbitrary hashable \<open>k\<close>.\<close>

fun py_lookup :: "(string \<times> 'v) list \<Rightarrow> json \<Rightarrow> py_error + 'v" where
  "py_lookup d (JStr s) = (case map_of d s of Some v \<Rightarrow> Inr v | None \<Rightarrow> Inl KeyError)"
| "py_lookup d (JArr xs) = Inl TypeError"
| "py_lookup d (JObj kvs) = Inl TypeError"
| "py_lookup d _ = Inl KeyError"

text \<open>\<^verbatim>\<open>d[k] = v\<close> on an object that may or may not be a dictionary.\<close>

fun py_store :: "json \<Rightarrow> string \<Rightarrow> json \<Rightarrow> py_error + json" where
  "py_store (JObj kvs) k v = Inr (JObj (AList.update k v kvs))"
| "py_store _ k v = Inl TypeError"

section \<open>Stock verification\<close>

text \<open>
  What \<^verbatim>\<open>self.session.get\<close> gives \<^verbatim>\<open>verify_stock\<close>: an exception (timeout,
  connection failure, no session) or a response with a status code and a body.
\<close>

record response =
  status_code :: int
  resp_text :: string

datatype http_result = Raised | Returned response

text \<open>
  The outcome of \<^verbatim>\<open>re.search\<close> for the \<^verbatim>\<open>window.__PRELOADED_STATE__\<close>
  assignment followed by \<^verbatim>\<open>json.loads\<close> of the captured group. Both are library
  code; \<^verbatim>\<open>verify_stock\<close> takes them as the parameter \<open>search\<close>.
\<close>

datatype extraction = NoMatch | BadJson | Parsed json

text \<open>The inner loop over a variant's qualifiers, with its \<^verbatim>\<open>break\<close>.\<close>

fun size_label :: "json list \<Rightarrow> py_error + json" where
  "size_label [] = Inr (JStr ''Unknown'')"
| "size_label (q # qs) =
     thn (py_get q ''qualifier'' JNull) (\<lambda>t.
       if t = JStr ''size'' then py_get q ''value'' JNull else size_label qs)"

text \<open>
  One pass of the loop over the variants: what is appended to
  \<^verbatim>\<open>in_stock_sizes\<close>, if anything. \<open>get2\<close> is a chained
  \<^verbatim>\<open>x.get(k, d).get(k', d')\<close>.
\<close>

definition get2 :: "json \<Rightarrow> string \<Rightarrow> json \<Rightarrow> string \<Rightarrow> json \<Rightarrow> py_error + json" where
  "get2 v k d k' d' = thn (py_get v k d) (\<lambda>x. py_get x k' d')"

definition variant_size :: "json \<Rightarrow> py_error + json" where
  "variant_size v =
     thn (py_get v ''variantOptionQualifiers'' (JArr [])) (\<lambda>quals.
     thn (py_iter quals) size_label)"

definition variant_entry :: "(json \<Rightarrow> string) \<Rightarrow> json \<Rightarrow> py_error + string option" where
  "variant_entry repr v =
     thn (get2 v ''stock'' (JObj []) ''stockLevel'' (JInt 0)) (\<lambda>qty.
     thn (get2 v ''stock'' (JObj []) ''stockLevelStatus'' (JStr ''outOfStock'')) (\<lambda>status.
     thn (variant_size v) (\<lambda>lbl.
     thn (py_gt0 qty) (\<lambda>pos.
       if pos then Inr (Some (py_str repr lbl @ '' ('' @ py_str repr qty @ '')''))
       else if status = JStr ''inStock'' then Inr (Some (py_str repr lbl @ '' (In Stock)''))
       else Inr None))))"

fun in_stock_sizes :: "(json \<Rightarrow> string) \<Rightarrow> json list \<Rightarrow> py_error + string list" where
  "in_stock_sizes repr [] = Inr []"
| "in_stock_sizes repr (v # vs) =
     thn (variant_entry repr v) (\<lambda>e.
     thn (in_stock_sizes repr vs) (\<lambda>rest.
       Inr (case e of None \<Rightarrow> rest | Some d \<Rightarrow> d # rest)))"

definition stock_marker :: string where
  "stock_marker =
     [CHR 0x22] @ ''stockLevelStatus'' @ [CHR 0x22] @ '':'' @ [CHR 0x22] @ ''inStock'' @ [CHR 0x22]"

text \<open>
  The body of the inner \<^verbatim>\<open>try\<close> after \<^verbatim>\<open>json.loads\<close> has returned
  \<open>state\<close>; \<open>body\<close> is \<^verbatim>\<open>resp.text\<close>.
\<close>

definition read_state :: "(json \<Rightarrow> string) \<Rightarrow> json \<Rightarrow> string \<Rightarrow> py_error + bool option \<times> string" where
  "read_state repr state body =
     thn (in2 ''product'' ''productDetails'' state) (\<lambda>has_details.
       if has_details then
         thn (getitem2 state ''product'' ''productDetails'') (\<lambda>details.
         thn (py_get details ''variantOptions'' (JArr [])) (\<lambda>variants.
         thn (py_iter variants) (\<lambda>vs.
         thn (in_stock_sizes repr vs) (\<lambda>sizes.
           if sizes \<noteq> [] then Inr (Some True, join '', '' sizes)
           else Inr (Some False, ''Out of Stock'')))))
       else if sublist stock_marker body then Inr (Some False, ''Structure Mismatch (OOS Safety)'')
       else Inr (Some False, ''Structure Mismatch''))"

text \<open>
  \<^verbatim>\<open>verify_stock\<close>. The flag is \<open>Some True\<close>, \<open>Some False\<close> or \<open>None\<close>
  (the value returned on HTTP 403). Only \<^verbatim>\<open>json.JSONDecodeError\<close> is caught by
  the inner handler and falls through to \<^verbatim>\<open>"No Data"\<close>; every other exception
  reaches the outer handler and gives \<^verbatim>\<open>"Error"\<close>.
\<close>

definition verify_stock ::
  "(json \<Rightarrow> string) \<Rightarrow> (string \<Rightarrow> extraction) \<Rightarrow> http_result \<Rightarrow> bool option \<times> string" where
  "verify_stock repr search res =
     (case res of
        Raised \<Rightarrow> (Some False, ''Error'')
      | Returned resp \<Rightarrow>
          if status_code resp = 200 then
            (case search (resp_text resp) of
               NoMatch \<Rightarrow> (Some False, ''No Data'')
             | BadJson \<Rightarrow> (Some False, ''No Data'')
             | Parsed state \<Rightarrow>
                 (case read_state repr state (resp_text resp) of
                    Inl e \<Rightarrow> (Some False, ''Error'')
                  | Inr r \<Rightarrow> r))
          else if status_code resp = 403 then (None, ''403'')
          else (Some False, ''HTTP '' @ show_int (status_code resp)))"

subsection \<open>The verifier's rules, as the specification words them\<close>

text \<open>
  A second reading of a variant record, written from the specification: its stock
  quantity (0 when none is given), its status flag, and the value of the first qualifier
  tagged \<^verbatim>\<open>size\<close> (\<^verbatim>\<open>"Unknown"\<close> when there is none). A quantity is greater
  than zero when it is a positive integer or \<^verbatim>\<open>true\<close>.
\<close>

definition field :: "json \<Rightarrow> string \<Rightarrow> json option" where
  "field v k = (case v of JObj kvs \<Rightarrow> map_of kvs k | _ \<Rightarrow> None)"

definition field2 :: "json \<Rightarrow> string \<Rightarrow> string \<Rightarrow> json option" where
  "field2 p k k' = (case field p k of Some r \<Rightarrow> field r k' | None \<Rightarrow> None)"

fun is_obj :: "json \<Rightarrow> bool" where
  "is_obj (JObj kvs) = True"
| "is_obj _ = False"

fun is_num :: "json \<Rightarrow> bool" where
  "is_num (JInt n) = True"
| "is_num (JBool b) = True"
| "is_num _ = False"

fun positive :: "json \<Rightarrow> bool" where
  "positive (JInt n) = (0 < n)"
| "positive (JBool b) = b"
| "positive _ = False"

definition spec_quantity :: "json \<Rightarrow> json" where
  "spec_quantity v =
     (case field2 v ''stock'' ''stockLevel'' of Some q \<Rightarrow> q | None \<Rightarrow> JInt 0)"

definition spec_status :: "json \<Rightarrow> json" where
  "spec_status v =
     (case field2 v ''stock'' ''stockLevelStatus'' of Some f \<Rightarrow> f | None \<Rightarrow> JStr ''outOfStock'')"

definition spec_qualifiers :: "json \<Rightarrow> json list" where
  "spec_qualifiers v =
     (case field v ''variantOptionQualifiers'' of
        None \<Rightarrow> []
      | Some q \<Rightarrow> (case py_iter q of Inr qs \<Rightarrow> qs | Inl e \<Rightarrow> []))"

definition size_tagged :: "json \<Rightarrow> bool" where
  "size_tagged q = (field q ''qualifier'' = Some (JStr ''size''))"

definition spec_size :: "json \<Rightarrow> json" where
  "spec_size v =
     (case find size_tagged (spec_qualifiers v) of
        None \<Rightarrow> JStr ''Unknown''
      | Some q \<Rightarrow> (case field q ''value'' of Some x \<Rightarrow> x | None \<Rightarrow> JNull))"

definition spec_qualifies :: "json \<Rightarrow> bool" where
  "spec_qualifies v = (positive (spec_quantity v) \<or> spec_status v = JStr ''inStock'')"

definition spec_detail :: "(json \<Rightarrow> string) \<Rightarrow> json \<Rightarrow> string" where
  "spec_detail repr v =
     (if positive (spec_quantity v)
      then py_str repr (spec_size v) @ '' ('' @ py_str repr (spec_quantity v) @ '')''
      else py_str repr (spec_size v) @ '' (In Stock)'')"

definition spec_verdict :: "(json \<Rightarrow> string) \<Rightarrow> json list \<Rightarrow> bool option \<times> string" where
  "spec_verdict repr vs =
     (if list_ex spec_qualifies vs
      then (Some True, join '', '' (map (spec_detail repr) (filter spec_qualifies vs)))
      else (Some False, ''Out of Stock''))"

text \<open>
  The variant records that can be read. A record is readable when it is an object, its
  \<^verbatim>\<open>stock\<close>, when given, is an object, its quantity is a number, and its qualifiers,
  when given, can be visited and are objects up to the first one tagged \<^verbatim>\<open>size\<close>.
\<close>

fun quals_ok :: "json list \<Rightarrow> bool" where
  "quals_ok [] = True"
| "quals_ok (q # qs) = (is_obj q \<and> (size_tagged q \<or> quals_ok qs))"

definition stock_ok :: "json \<Rightarrow> bool" where
  "stock_ok v = (case field v ''stock'' of None \<Rightarrow> True | Some s \<Rightarrow> is_obj s)"

definition qualifiers_ok :: "json \<Rightarrow> bool" where
  "qualifiers_ok v =
     (case field v ''variantOptionQualifiers'' of
        None \<Rightarrow> True
      | Some q \<Rightarrow> (case py_iter q of Inr qs \<Rightarrow> quals_ok qs | Inl e \<Rightarrow> False))"

definition readable_variant :: "json \<Rightarrow> bool" where
  "readable_variant v =
     (is_obj v \<and> stock_ok v \<and> is_num (spec_quantity v) \<and> qualifiers_ok v)"

text \<open>
  The \<^verbatim>\<open>productDetails\<close> of a state that has the \<^verbatim>\<open>product.productDetails\<close>
  path, and the variant records of such details when all of them can be read: the details
  are an object and \<^verbatim>\<open>variantOptions\<close>, when given, can be visited.
\<close>

definition details_of :: "json \<Rightarrow> json option" where
  "details_of state = field2 state ''product'' ''productDetails''"

definition readable_variants :: "json \<Rightarrow> json list option" where
  "readable_variants d =
     (if is_obj d then
        (case field d ''variantOptions'' of
           None \<Rightarrow> Some []
         | Some x \<Rightarrow>
             (case py_iter x of
                Inr vs \<Rightarrow> if list_all readable_variant vs then Some vs else None
              | Inl e \<Rightarrow> None))
      else None)"

text \<open>
  A state lacks the \<^verbatim>\<open>product.productDetails\<close> path when it has no
  \<^verbatim>\<open>product\<close> member, or that member has no \<^verbatim>\<open>productDetails\<close> member.
\<close>

definition lacks_details :: "json \<Rightarrow> bool" where
  "lacks_details state =
     (case field state ''product'' of
        None \<Rightarrow> True
      | Some p \<Rightarrow> field p ''productDetails'' = None)"

section \<open>Discovery\<close>

text \<open>
  A product entity as \<^verbatim>\<open>_parse_product\<close> builds it. Code, name, price and image are
  copied from the listing as they are; the URL is a concatenation of strings.
\<close>

record product =
  code :: json
  name :: json
  price :: json
  image :: json
  url :: string
  category :: string

definition SHEIN_BASE_URL :: string where
  "SHEIN_BASE_URL = ''https://www.sheinindia.in''"

definition MAX_RETRIES :: nat where
  "MAX_RETRIES = 3"

definition MONITORED_GENDERS :: "string list" where
  "MONITORED_GENDERS = [''Men'', ''Women'']"

text \<open>The price and image rules of \<^verbatim>\<open>_parse_product\<close>; \<open>p\<close> is the raw entry.\<close>

definition parse_price :: "json \<Rightarrow> py_error + json" where
  "parse_price p =
     thn (in2 ''retailPrice'' ''displayformattedValue'' p) (\<lambda>retail.
       if retail then getitem2 p ''retailPrice'' ''displayformattedValue''
       else
         thn (in2 ''offerPrice'' ''displayformattedValue'' p) (\<lambda>offer.
           if offer then getitem2 p ''offerPrice'' ''displayformattedValue''
           else Inr (JStr ''N/A'')))"

definition has_images :: "json \<Rightarrow> py_error + bool" where
  "has_images p =
     thn (py_in ''images'' p) (\<lambda>b.
       if b then thn (py_getitem p ''images'') (\<lambda>im. thn (py_len im) (\<lambda>n. Inr (0 < n)))
       else Inr False)"

definition parse_image :: "json \<Rightarrow> py_error + json" where
  "parse_image p =
     thn (in2 ''fnlColorVariantData'' ''outfitPictureURL'' p) (\<lambda>outfit.
       if outfit then getitem2 p ''fnlColorVariantData'' ''outfitPictureURL''
       else
         thn (has_images p) (\<lambda>b.
           if b then
             thn (py_getitem p ''images'') (\<lambda>im.
             thn (py_first im) (\<lambda>x. py_get x ''url'' (JStr [])))
           else Inr (JStr [])))"

text \<open>\<^verbatim>\<open>SHEIN_BASE_URL + x\<close>: only a string can be appended to a string.\<close>

fun base_plus :: "json \<Rightarrow> py_error + string" where
  "base_plus (JStr s) = Inr (SHEIN_BASE_URL @ s)"
| "base_plus _ = Inl TypeError"

text \<open>
  \<^verbatim>\<open>_parse_product(p, products_dict, gender)\<close>: the dictionary is returned updated;
  an entry whose \<^verbatim>\<open>code\<close> is missing or falsy leaves it as it is.
\<close>

definition parse_product ::
  "(json \<Rightarrow> string) \<Rightarrow> json \<Rightarrow> (json \<times> product) list \<Rightarrow> string \<Rightarrow> py_error + (json \<times> product) list" where
  "parse_product repr p products_dict gender =
     thn (py_get p ''code'' JNull) (\<lambda>c.
       if \<not> truthy c then Inr products_dict
       else
         thn (parse_price p) (\<lambda>mrp.
         thn (parse_image p) (\<lambda>img.
         thn (py_get p ''name'' (JStr ''Unknown Product'')) (\<lambda>nm.
         thn (py_get p ''url'' (JStr (''/p/'' @ py_str repr c))) (\<lambda>rel.
         thn (base_plus rel) (\<lambda>u.
           py_setitem products_dict c
             \<lparr>code = c, name = nm, price = mrp, image = img, url = u, category = gender\<rparr>))))))"

text \<open>\<^verbatim>\<open>for p in ...: self._parse_product(p, products, gender)\<close>.\<close>

fun parse_all ::
  "(json \<Rightarrow> string) \<Rightarrow> json list \<Rightarrow> (json \<times> product) list \<Rightarrow> string \<Rightarrow> py_error + (json \<times> product) list" where
  "parse_all repr [] products gender = Inr products"
| "parse_all repr (p # ps) products gender =
     thn (parse_product repr p products gender) (\<lambda>products'. parse_all repr ps products' gender)"

text \<open>
  One attempt of \<^verbatim>\<open>fetch_page\<close>: the request raises, or it returns a status code
  together with what \<^verbatim>\<open>resp.json()\<close> gives (\<open>None\<close> when the body is not JSON and
  \<^verbatim>\<open>resp.json()\<close> raises).
\<close>

datatype page_attempt = GetRaised | Got int "json option"

text \<open>
  \<^verbatim>\<open>fetch_page\<close>: up to \<open>MAX_RETRIES\<close> attempts; \<open>attempts i\<close> is the outcome of
  attempt \<open>i\<close>. Python's \<^verbatim>\<open>None\<close> is \<open>JNull\<close>.
\<close>

fun fetch_attempts :: "(nat \<Rightarrow> page_attempt) \<Rightarrow> nat \<Rightarrow> nat \<Rightarrow> json" where
  "fetch_attempts attempts i 0 = JNull"
| "fetch_attempts attempts i (Suc n) =
     (case attempts i of
        GetRaised \<Rightarrow> fetch_attempts attempts (Suc i) n
      | Got status body \<Rightarrow>
          if status = 200 then
            (case body of Some data \<Rightarrow> data | None \<Rightarrow> fetch_attempts attempts (Suc i) n)
          else fetch_attempts attempts (Suc i) n)"

definition fetch_page :: "(nat \<Rightarrow> page_attempt) \<Rightarrow> json" where
  "fetch_page attempts = fetch_attempts attempts 0 MAX_RETRIES"

text \<open>What \<^verbatim>\<open>fetch_page\<close> returns for page \<open>pg\<close>, given the attempts per page.\<close>

definition page_data :: "(int \<Rightarrow> nat \<Rightarrow> page_attempt) \<Rightarrow> int \<Rightarrow> json" where
  "page_data attempts pg = fetch_page (attempts pg)"

text \<open>\<^verbatim>\<open>total_pages > 1\<close>.\<close>

fun py_gt1 :: "json \<Rightarrow> py_error + bool" where
  "py_gt1 (JInt n) = Inr (1 < n)"
| "py_gt1 (JBool b) = Inr False"
| "py_gt1 _ = Inl TypeError"

fun last_page :: "json \<Rightarrow> int" where
  "last_page (JInt n) = n"
| "last_page _ = 1"

text \<open>
  The loop over the completed page fetches: \<open>fetched pg\<close> is what
  \<^verbatim>\<open>fetch_page\<close> returned for page \<open>pg\<close>, and the list is the order in which
  \<^verbatim>\<open>as_completed\<close> yields the pages.
\<close>

fun merge_pages ::
  "(json \<Rightarrow> string) \<Rightarrow> (int \<Rightarrow> json) \<Rightarrow> int list \<Rightarrow> (json \<times> product) list \<Rightarrow> string \<Rightarrow>
   py_error + (json \<times> product) list" where
  "merge_pages repr fetched [] products gender = Inr products"
| "merge_pages repr fetched (pg # pgs) products gender =
     thn (if truthy (fetched pg) then py_in ''products'' (fetched pg) else Inr False) (\<lambda>ok.
       if ok then
         thn (py_getitem (fetched pg) ''products'') (\<lambda>ps.
         thn (py_len ps) (\<lambda>count.
         thn (py_iter ps) (\<lambda>entries.
         thn (parse_all repr entries products gender) (\<lambda>products'.
           merge_pages repr fetched pgs products' gender))))
       else merge_pages repr fetched pgs products gender)"

text \<open>
  \<^verbatim>\<open>fetch_products_for_gender\<close>. \<open>attempts pg i\<close> is the outcome of attempt \<open>i\<close>
  at page \<open>pg\<close> of this filter; \<open>order\<close> turns the list of submitted pages into the
  order of their completion.
\<close>

definition page_count :: "json \<Rightarrow> py_error + json" where
  "page_count first_page_data =
     thn (py_in ''pagination'' first_page_data) (\<lambda>b.
       if b then
         thn (py_getitem first_page_data ''pagination'') (\<lambda>pg. py_get pg ''totalPages'' (JInt 1))
       else Inr (JInt 1))"

definition first_page_products ::
  "(json \<Rightarrow> string) \<Rightarrow> json \<Rightarrow> string \<Rightarrow> py_error + (json \<times> product) list" where
  "first_page_products repr first_page_data gender =
     thn (py_in ''products'' first_page_data) (\<lambda>b.
       if b then
         thn (py_getitem first_page_data ''products'') (\<lambda>ps.
         thn (py_iter ps) (\<lambda>entries. parse_all repr entries [] gender))
       else Inr [])"

definition fetch_products_for_gender ::
  "(json \<Rightarrow> string) \<Rightarrow> (int \<Rightarrow> nat \<Rightarrow> page_attempt) \<Rightarrow> (int list \<Rightarrow> int list) \<Rightarrow> string \<Rightarrow>
   py_error + (json \<times> product) list" where
  "fetch_products_for_gender repr attempts order gender =
     (let first_page_data = page_data attempts 1 in
      if \<not> truthy first_page_data then Inr []
      else
        thn (page_count first_page_data) (\<lambda>total_pages.
        thn (first_page_products repr first_page_data gender) (\<lambda>products.
        thn (py_gt1 total_pages) (\<lambda>more.
          if more then
            merge_pages repr (page_data attempts) (order [2..last_page total_pages]) products gender
          else Inr products))))"

section \<open>Notifier and state store\<close>

text \<open>
  A call of \<^verbatim>\<open>send_telegram_message\<close>: the text, the photo URL (\<open>JNull\<close> for
  \<^verbatim>\<open>None\<close>) and the gender that selects the channel.
\<close>

record message =
  msg_text :: string
  photo_url :: json
  gender :: "string option"

text \<open>What one \<^verbatim>\<open>standard_requests.post\<close> does.\<close>

datatype post_outcome = Status int | ReadTimeout | PostFailed

text \<open>
  The monitor's state: the \<^verbatim>\<open>stock_state\<close> attribute, the content of the state
  file (\<open>None\<close> while there is no readable file), the calls of
  \<^verbatim>\<open>send_telegram_message\<close> made so far, and the two local variables of
  \<^verbatim>\<open>run\<close>. Writing the file is taken to succeed.
\<close>

record monitor =
  stock_state :: json
  state_file :: "json option"
  outbox :: "message list"
  last_reset_date :: "int option"
  cycle :: nat

definition load_state :: "json option \<Rightarrow> json" where
  "load_state file = (case file of Some data \<Rightarrow> data | None \<Rightarrow> JObj [])"

definition save_state :: "monitor \<Rightarrow> monitor" where
  "save_state m = m\<lparr>state_file := Some (stock_state m)\<rparr>"

text \<open>
  The retry loop of \<^verbatim>\<open>send_telegram_message\<close> without a photo: \<open>posts i\<close> is the
  outcome of the \<open>i\<close>-th request of this call. A status other than 200 (429 after its
  wait included) and an exception other than a read timeout go on to the next attempt.
\<close>

fun text_attempts :: "(nat \<Rightarrow> post_outcome) \<Rightarrow> nat \<Rightarrow> nat \<Rightarrow> bool" where
  "text_attempts posts i 0 = False"
| "text_attempts posts i (Suc n) =
     (case posts i of
        Status c \<Rightarrow> if c = 200 then True else text_attempts posts (Suc i) n
      | ReadTimeout \<Rightarrow> True
      | PostFailed \<Rightarrow> text_attempts posts (Suc i) n)"

text \<open>
  The same loop with a photo: a failure other than 429 at the first attempt hands over to
  a text-only call.
\<close>

fun photo_attempts :: "(nat \<Rightarrow> post_outcome) \<Rightarrow> nat \<Rightarrow> nat \<Rightarrow> bool" where
  "photo_attempts posts i 0 = False"
| "photo_attempts posts i (Suc n) =
     (case posts i of
        Status c \<Rightarrow>
          if c = 200 then True
          else if c = 429 then photo_attempts posts (Suc i) n
          else if i = 0 then text_attempts posts (Suc i) 3
          else photo_attempts posts (Suc i) n
      | ReadTimeout \<Rightarrow> True
      | PostFailed \<Rightarrow> photo_attempts posts (Suc i) n)"

definition delivered :: "(nat \<Rightarrow> post_outcome) \<Rightarrow> json \<Rightarrow> bool" where
  "delivered posts photo =
     (if truthy photo then photo_attempts posts 0 3 else text_attempts posts 0 3)"

text \<open>
  \<^verbatim>\<open>send_telegram_message\<close>: \<open>telegram n\<close> gives the outcomes of the requests made
  by the \<open>n\<close>-th call; the call is recorded in the outbox. The payload of a request
  (the text, or the caption cut to 1024 characters) is not part of the model: the outcome
  of every request is given from outside.
\<close>

definition send_telegram_message ::
  "(nat \<Rightarrow> nat \<Rightarrow> post_outcome) \<Rightarrow> string \<Rightarrow> json \<Rightarrow> string option \<Rightarrow> monitor \<Rightarrow> bool \<times> monitor" where
  "send_telegram_message telegram txt photo g m =
     (delivered (telegram (length (outbox m))) photo,
      m\<lparr>outbox := outbox m @ [\<lparr>msg_text = txt, photo_url = photo, gender = g\<rparr>]\<rparr>)"

section \<open>The control loop\<close>

text \<open>
  The libraries and the messaging service the loop runs against: the interpreter's
  \<^verbatim>\<open>repr\<close>, the search for the preloaded state in a page body, and the outcomes of
  the requests to the messaging service.
\<close>

record services =
  py_repr :: "json \<Rightarrow> string"
  re_search :: "string \<Rightarrow> extraction"
  telegram :: "nat \<Rightarrow> nat \<Rightarrow> post_outcome"

definition escape_html :: "(json \<Rightarrow> string) \<Rightarrow> json \<Rightarrow> string" where
  "escape_html repr x =
     replace (CHR ''>'') ''&gt;'' (replace (CHR ''<'') ''&lt;'' (replace (CHR ''&'') ''&amp;'' (py_str repr x)))"

text \<open>
  The text of the restock notification. The pictograph that opens each of its lines is
  outside the 8-bit character type and is left out.
\<close>

definition restock_text :: "(json \<Rightarrow> string) \<Rightarrow> product \<Rightarrow> string \<Rightarrow> string" where
  "restock_text repr product stock_details =
     '' <b>IN STOCK</b>'' @ [CHR 0x0A, CHR 0x0A]
     @ '' <b>'' @ escape_html repr (name product) @ ''</b>'' @ [CHR 0x0A]
     @ '' MRP: '' @ escape_html repr (price product) @ [CHR 0x0A]
     @ '' Sizes: '' @ escape_html repr (JStr stock_details) @ [CHR 0x0A]
     @ '' <a href='' @ [CHR 0x27] @ url product @ [CHR 0x27] @ ''>'' @ url product @ ''</a>''"

text \<open>
  The body of the \<^verbatim>\<open>try\<close> block for one completed verification. An exception in
  it is caught and logged, so the monitor is returned as it is at that point.
\<close>

definition handle_result ::
  "services \<Rightarrow> product \<Rightarrow> string \<Rightarrow> bool option \<times> string \<Rightarrow> monitor \<Rightarrow> monitor" where
  "handle_result sv product c res m =
     (case fst res of
        None \<Rightarrow> m
      | Some is_in_stock \<Rightarrow>
          (case get2 (stock_state m) c (JObj []) ''in_stock'' (JBool False) of
             Inl e \<Rightarrow> m
           | Inr prev_state \<Rightarrow>
               if is_in_stock then
                 (if \<not> truthy prev_state then
                    (case send_telegram_message (telegram sv)
                            (restock_text (py_repr sv) product (snd res))
                            (image product) (Some (category product)) m of
                       (ok, m') \<Rightarrow>
                         if ok then
                           (case py_store (stock_state m') c
                                   (JObj [(''in_stock'', JBool True), (''details'', JStr (snd res))]) of
                              Inl e \<Rightarrow> m'
                            | Inr s \<Rightarrow> save_state (m'\<lparr>stock_state := s\<rparr>))
                         else m')
                  else m)
               else
                 (if truthy prev_state then
                    (case py_store (stock_state m) c (JObj [(''in_stock'', JBool False)]) of
                       Inl e \<Rightarrow> m
                     | Inr s \<Rightarrow> save_state (m\<lparr>stock_state := s\<rparr>))
                  else m)))"

text \<open>
  The loop over the completed verifications, each given as the raw code of its task and
  the verifier's result; \<open>seen\<close> is \<^verbatim>\<open>processed_codes_this_cycle\<close>. The lookup
  of the product stands before the \<^verbatim>\<open>try\<close>, so its exception ends the loop; the
  monitor is returned together with the exception.
\<close>

fun verification_loop ::
  "services \<Rightarrow> (string \<times> product) list \<Rightarrow> (json \<times> bool option \<times> string) list \<Rightarrow> string set \<Rightarrow>
   monitor \<Rightarrow> py_error option \<times> monitor" where
  "verification_loop sv all_found_products [] seen m = (None, m)"
| "verification_loop sv all_found_products ((raw_code, res) # rest) seen m =
     (let c = clean_code (py_repr sv) raw_code in
      if c \<in> seen then verification_loop sv all_found_products rest seen m
      else
        (case py_lookup all_found_products raw_code of
           Inl e \<Rightarrow> (Some e, m)
         | Inr product \<Rightarrow>
             verification_loop sv all_found_products rest (insert c seen)
               (handle_result sv product c res m)))"

text \<open>
  What one cycle meets: the local date and hour in Asia/Kolkata when it starts (the date
  as a day number), the listing's answers per filter, page and attempt, the completion
  order of the page fetches, the detail page of each product code, and the completion
  order of the verifications.
\<close>

record cycle_env =
  now_date :: int
  now_hour :: nat
  listing :: "string \<Rightarrow> int \<Rightarrow> nat \<Rightarrow> page_attempt"
  page_order :: "int list \<Rightarrow> int list"
  detail :: "json \<Rightarrow> http_result"
  verify_order :: "(json \<times> bool option \<times> string) list \<Rightarrow> (json \<times> bool option \<times> string) list"

definition good_morning :: string where
  "good_morning =
     '' <b>Good Morning!</b>'' @ [CHR 0x0A]
     @ ''Starting daily stock check... You will receive alerts for ALL in-stock items now.''"

definition reset_due :: "cycle_env \<Rightarrow> monitor \<Rightarrow> bool" where
  "reset_due e m = (now_hour e = 7 \<and> Some (now_date e) \<noteq> last_reset_date m)"

definition daily_reset :: "services \<Rightarrow> cycle_env \<Rightarrow> monitor \<Rightarrow> monitor" where
  "daily_reset sv e m =
     (if reset_due e m then
        (let m1 = snd (send_telegram_message (telegram sv) good_morning JNull None m);
             m2 = snd (send_telegram_message (telegram sv) good_morning JNull (Some ''Women'') m1);
             m3 = save_state (m2\<lparr>stock_state := JObj []\<rparr>)
         in m3\<lparr>last_reset_date := Some (now_date e)\<rparr>)
      else m)"

text \<open>
  \<^verbatim>\<open>for k, v in prods.items(): all_found_products[str(k).strip()] = v\<close>.
\<close>

fun merge_found ::
  "(json \<Rightarrow> string) \<Rightarrow> (json \<times> product) list \<Rightarrow> (string \<times> product) list \<Rightarrow> (string \<times> product) list" where
  "merge_found repr [] all_found_products = all_found_products"
| "merge_found repr ((k, v) # prods) all_found_products =
     merge_found repr prods (AList.update (clean_code repr k) v all_found_products)"

fun discover ::
  "services \<Rightarrow> cycle_env \<Rightarrow> string list \<Rightarrow> (string \<times> product) list \<Rightarrow> py_error + (string \<times> product) list" where
  "discover sv e [] all_found_products = Inr all_found_products"
| "discover sv e (g # gs) all_found_products =
     thn (fetch_products_for_gender (py_repr sv) (listing e g) (page_order e) g) (\<lambda>prods.
       discover sv e gs (merge_found (py_repr sv) prods all_found_products))"

text \<open>The verification tasks of a cycle, each with the result its worker returns.\<close>

definition verifications ::
  "services \<Rightarrow> cycle_env \<Rightarrow> (string \<times> product) list \<Rightarrow> (json \<times> bool option \<times> string) list" where
  "verifications sv e all_found_products =
     map (\<lambda>kv. (code (snd kv), verify_stock (py_repr sv) (re_search sv) (detail e (code (snd kv)))))
       all_found_products"

text \<open>
  One pass of the \<^verbatim>\<open>while\<close> loop. The result carries the exception that left the
  loop, if there is one.
\<close>

definition run_cycle :: "services \<Rightarrow> cycle_env \<Rightarrow> monitor \<Rightarrow> py_error option \<times> monitor" where
  "run_cycle sv e m =
     (let m1 = daily_reset sv e m;
          m2 = m1\<lparr>cycle := cycle m1 + 1\<rparr>
      in case discover sv e MONITORED_GENDERS [] of
           Inl err \<Rightarrow> (Some err, m2)
         | Inr all_found_products \<Rightarrow>
             if all_found_products = [] then (None, m2)
             else verification_loop sv all_found_products
                    (verify_order e (verifications sv e all_found_products)) {} m2)"

fun run_cycles :: "services \<Rightarrow> cycle_env list \<Rightarrow> monitor \<Rightarrow> py_error option \<times> monitor" where
  "run_cycles sv [] m = (None, m)"
| "run_cycles sv (e # es) m =
     (case run_cycle sv e m of
        (Some err, m') \<Rightarrow> (Some err, m')
      | (None, m') \<Rightarrow> run_cycles sv es m')"

text \<open>
  \<^verbatim>\<open>run\<close>, for the cycles that start before the loop is stopped: the two start
  announcements, then the loop with \<^verbatim>\<open>cycle = 0\<close> and no reset date.
\<close>

definition started :: "string \<Rightarrow> string" where
  "started channel = '' Monitor Started (Optimized + HTML) - '' @ channel @ '' Channel''"

definition run :: "services \<Rightarrow> cycle_env list \<Rightarrow> monitor \<Rightarrow> py_error option \<times> monitor" where
  "run sv es m =
     (let m1 = snd (send_telegram_message (telegram sv) (started ''Men'') JNull None m);
          m2 = snd (send_telegram_message (telegram sv) (started ''Women'') JNull (Some ''Women'') m1)
      in run_cycles sv es (m2\<lparr>last_reset_date := None, cycle := 0\<rparr>))"

text \<open>
  The monitor at the head of each pass of the loop that starts, in order: the passes
  after an exception do not start.
\<close>

fun loop_heads :: "services \<Rightarrow> cycle_env list \<Rightarrow> monitor \<Rightarrow> monitor list" where
  "loop_heads sv [] m = []"
| "loop_heads sv (e # es) m =
     m # (case run_cycle sv e m of
            (Some err, m') \<Rightarrow> []
          | (None, m') \<Rightarrow> loop_heads sv es m')"


section \<open>The state store, as the specification words it\<close>

text \<open>
  A store is a mapping from identifiers to records; a record is kept for \<open>c\<close> when
  the store has a member \<open>c\<close>. The product counts as in stock before a cycle's
  decision when its record has a truthy \<^verbatim>\<open>in_stock\<close>; no record means not in stock.
\<close>

definition entry_ok :: "json \<Rightarrow> string \<Rightarrow> bool" where
  "entry_ok store c =
     (is_obj store \<and> (case field store c of None \<Rightarrow> True | Some r \<Rightarrow> is_obj r))"

definition in_stock_before :: "json \<Rightarrow> string \<Rightarrow> bool" where
  "in_stock_before store c =
     (case field store c of
        None \<Rightarrow> False
      | Some r \<Rightarrow> (case field r ''in_stock'' of None \<Rightarrow> False | Some b \<Rightarrow> truthy b))"

definition records_in_stock :: "json \<Rightarrow> string \<Rightarrow> bool" where
  "records_in_stock store c =
     (case field store c of None \<Rightarrow> False | Some r \<Rightarrow> field r ''in_stock'' = Some (JBool True))"

text \<open>The notification that a restock sends, and the two records the loop writes.\<close>

definition restock_message :: "services \<Rightarrow> product \<Rightarrow> string \<Rightarrow> message" where
  "restock_message sv p details =
     \<lparr>msg_text = restock_text (py_repr sv) p details, photo_url = image p, gender = Some (category p)\<rparr>"

definition in_stock_record :: "string \<Rightarrow> json" where
  "in_stock_record details = JObj [(''in_stock'', JBool True), (''details'', JStr details)]"

definition out_of_stock_record :: json where
  "out_of_stock_record = JObj [(''in_stock'', JBool False)]"

text \<open>The clean codes of a list of completed verifications.\<close>

definition codes_of :: "services \<Rightarrow> (json \<times> bool option \<times> string) list \<Rightarrow> string set" where
  "codes_of sv cs = (\<lambda>x. clean_code (py_repr sv) (fst x)) ` set cs"

text \<open>
  A list of completions with every later completion of an already processed clean code
  taken out: what is left is the first completion of each code.
\<close>

fun first_per_code ::
  "services \<Rightarrow> (json \<times> bool option \<times> string) list \<Rightarrow> string set \<Rightarrow> (json \<times> bool option \<times> string) list" where
  "first_per_code sv [] seen = []"
| "first_per_code sv (x # xs) seen =
     (if clean_code (py_repr sv) (fst x) \<in> seen then first_per_code sv xs seen
      else x # first_per_code sv xs (insert (clean_code (py_repr sv) (fst x)) seen))"

section \<open>Sample inputs\<close>

text \<open>A detail page with three variants, and a response that carries it.\<close>

definition sample_variants :: "json list" where
  "sample_variants =
     [JObj [(''stock'', JObj [(''stockLevel'', JInt 3), (''stockLevelStatus'', JStr ''inStock'')]),
            (''variantOptionQualifiers'',
               JArr [JObj [(''qualifier'', JStr ''color''), (''value'', JStr ''Red'')],
                     JObj [(''qualifier'', JStr ''size''), (''value'', JStr ''M'')]])],
      JObj [(''stock'', JObj [(''stockLevel'', JInt 0), (''stockLevelStatus'', JStr ''inStock'')])],
      JObj [(''stock'', JObj [(''stockLevel'', JInt 0), (''stockLevelStatus'', JStr ''outOfStock'')]),
            (''variantOptionQualifiers'',
               JArr [JObj [(''qualifier'', JStr ''size''), (''value'', JStr ''L'')]])]]"

definition sample_state :: json where
  "sample_state =
     JObj [(''product'', JObj [(''productDetails'', JObj [(''variantOptions'', JArr sample_variants)])])]"

text \<open>
  A detail page whose only variant has the status flag \<^verbatim>\<open>"inStock"\<close> and the
  quantity \<^verbatim>\<open>null\<close>.
\<close>

definition null_level_variant :: json where
  "null_level_variant =
     JObj [(''stock'', JObj [(''stockLevel'', JNull), (''stockLevelStatus'', JStr ''inStock'')])]"

definition null_level_details :: json where
  "null_level_details = JObj [(''variantOptions'', JArr [null_level_variant])]"

definition null_level_state :: json where
  "null_level_state = JObj [(''product'', JObj [(''productDetails'', null_level_details)])]"

definition sample_details :: json where
  "sample_details = JObj [(''variantOptions'', JArr sample_variants)]"

text \<open>Preloaded states with given details, and with given variant records.\<close>

definition details_state :: "json \<Rightarrow> json" where
  "details_state d = JObj [(''product'', JObj [(''productDetails'', d)])]"

definition variants_state :: "json list \<Rightarrow> json" where
  "variants_state vs = details_state (JObj [(''variantOptions'', JArr vs)])"

definition ok_page :: response where
  "ok_page = \<lparr>status_code = 200, resp_text = []\<rparr>"

text \<open>
  A search that finds the given state in every body, and a stand-in for \<^verbatim>\<open>repr\<close>.
\<close>

definition parsed_as :: "json \<Rightarrow> string \<Rightarrow> extraction" where
  "parsed_as state body = Parsed state"

definition plain_repr :: "json \<Rightarrow> string" where
  "plain_repr v = []"

text \<open>Preloaded states without the expected structure.\<close>

definition null_product_state :: json where
  "null_product_state = JObj [(''product'', JNull)]"

definition empty_product_state :: json where
  "empty_product_state = JObj [(''product'', JObj [])]"

definition marker_page :: response where
  "marker_page = \<lparr>status_code = 200, resp_text = ''x'' @ stock_marker @ ''y''\<rparr>"

text \<open>A product, two messaging services, and monitors with and without a record for it.\<close>

definition shirt :: product where
  "shirt = \<lparr>code = JStr ''A1'', name = JStr ''Shirt'', price = JStr ''Rs. 499'',
            image = JStr ''https://img.example/a1.jpg'', url = SHEIN_BASE_URL @ ''/p/A1'',
            category = ''Men''\<rparr>"

definition all_delivered :: "nat \<Rightarrow> nat \<Rightarrow> post_outcome" where
  "all_delivered n i = Status 200"

definition none_delivered :: "nat \<Rightarrow> nat \<Rightarrow> post_outcome" where
  "none_delivered n i = Status 500"

definition good_service :: services where
  "good_service = \<lparr>py_repr = plain_repr, re_search = parsed_as sample_state, telegram = all_delivered\<rparr>"

definition bad_service :: services where
  "bad_service = \<lparr>py_repr = plain_repr, re_search = parsed_as sample_state, telegram = none_delivered\<rparr>"

definition fresh :: monitor where
  "fresh = \<lparr>stock_state = JObj [], state_file = None, outbox = [], last_reset_date = None, cycle = 0\<rparr>"

definition stocked :: monitor where
  "stocked =
     \<lparr>stock_state = JObj [(''A1'', JObj [(''in_stock'', JBool True), (''details'', JStr ''M (3)'')])],
      state_file = Some (JObj [(''A1'', JObj [(''in_stock'', JBool True), (''details'', JStr ''M (3)'')])]),
      outbox = [], last_reset_date = None, cycle = 0\<rparr>"

definition forbidden_page :: response where
  "forbidden_page = \<lparr>status_code = 403, resp_text = []\<rparr>"

section \<open>The parser's rules, as the specification words them\<close>












text \<open>Listing entries: one with a retail price and no name, one whose identifier is empty.\<close>

definition priced_entry :: json where
  "priced_entry =
     JObj [(''code'', JStr ''A1''),
           (''retailPrice'', JObj [(''displayformattedValue'', JStr ''Rs. 999'')]),
           (''offerPrice'', JObj [(''displayformattedValue'', JStr ''Rs. 499'')])]"


section \<open>Discovery, as the specification words it\<close>

text \<open>
  An attempt fails when the request raises, the status is not 200, or the body is not
  JSON. The pages of a completion list that did not fail are those for which
  \<^verbatim>\<open>fetch_page\<close> has returned something other than \<^verbatim>\<open>None\<close>.
\<close>

definition attempt_failed :: "page_attempt \<Rightarrow> bool" where
  "attempt_failed a = (case a of GetRaised \<Rightarrow> True | Got status body \<Rightarrow> status \<noteq> 200 \<or> body = None)"

definition succeeded :: "(int \<Rightarrow> json) \<Rightarrow> int list \<Rightarrow> int list" where
  "succeeded fetched_page pgs = filter (\<lambda>pg. fetched_page pg \<noteq> JNull) pgs"

definition without_failed :: "(int \<Rightarrow> json) \<Rightarrow> (int list \<Rightarrow> int list) \<Rightarrow> int list \<Rightarrow> int list" where
  "without_failed fetched_page order pgs = succeeded fetched_page (order pgs)"

text \<open>
  Listings: one whose first page cannot be fetched while every other page can, and one
  of two pages whose second page is refused.
\<close>

definition listing_page :: json where
  "listing_page =
     JObj [(''pagination'', JObj [(''totalPages'', JInt 2)]), (''products'', JArr [priced_entry])]"

definition page1_down :: "int \<Rightarrow> nat \<Rightarrow> page_attempt" where
  "page1_down pg i = (if pg = 1 then GetRaised else Got 200 (Some listing_page))"

definition page2_refused :: "int \<Rightarrow> nat \<Rightarrow> page_attempt" where
  "page2_refused pg i = (if pg = 2 then Got 403 None else Got 200 (Some listing_page))"

definition in_order :: "int list \<Rightarrow> int list" where
  "in_order pgs = pgs"

definition priced_record :: product where
  "priced_record =
     \<lparr>code = JStr ''A1'', name = JStr ''Unknown Product'', price = JStr ''Rs. 999'',
      image = JStr [], url = SHEIN_BASE_URL @ ''/p/A1'', category = ''Men''\<rparr>"

section \<open>Identifiers and their clean codes\<close>

text \<open>
  An identifier equals its whitespace-trimmed form when it is a string that
  \<^verbatim>\<open>str(k).strip()\<close> gives back.
\<close>

definition trimmed :: "(json \<Rightarrow> string) \<Rightarrow> json \<Rightarrow> bool" where
  "trimmed repr c = (c = JStr (clean_code repr c))"

text \<open>
  What discovery guarantees. In a mapping built by \<^verbatim>\<open>_parse_product\<close> every record
  is stored under a key equal to its own hashable code; in the merged mapping the keys are
  distinct clean codes, and a record whose code is a string is stored under that string
  trimmed.
\<close>

definition prods_ok :: "(json \<times> product) list \<Rightarrow> bool" where
  "prods_ok d = list_all (\<lambda>kr. hashable (code (snd kr)) \<and> key_norm (fst kr) = key_norm (code (snd kr))) d"

definition found_ok :: "(string \<times> product) list \<Rightarrow> bool" where
  "found_ok f =
     (distinct (map fst f)
      \<and> list_all (\<lambda>kr. strip (fst kr) = fst kr \<and> hashable (code (snd kr))
                       \<and> (case code (snd kr) of JStr s \<Rightarrow> fst kr = strip s | _ \<Rightarrow> True)) f)"

text \<open>
  A cycle whose listing has one page with one product, the code of which starts with a
  blank; and the same with the blank taken away.
\<close>

definition spaced_page :: json where
  "spaced_page = JObj [(''products'', JArr [JObj [(''code'', JStr '' A1'')]])]"

definition spaced_listing :: "string \<Rightarrow> int \<Rightarrow> nat \<Rightarrow> page_attempt" where
  "spaced_listing g pg i = (if g = ''Men'' then Got 200 (Some spaced_page) else GetRaised)"

definition out_of_stock_detail :: "json \<Rightarrow> http_result" where
  "out_of_stock_detail c = Returned \<lparr>status_code = 404, resp_text = []\<rparr>"

definition as_submitted ::
  "(json \<times> bool option \<times> string) list \<Rightarrow> (json \<times> bool option \<times> string) list" where
  "as_submitted cs = cs"

definition spaced_cycle :: cycle_env where
  "spaced_cycle =
     \<lparr>now_date = 0, now_hour = 12, listing = spaced_listing, page_order = in_order,
      detail = out_of_stock_detail, verify_order = as_submitted\<rparr>"

definition spaced_record :: product where
  "spaced_record =
     \<lparr>code = JStr '' A1'', name = JStr ''Unknown Product'', price = JStr ''N/A'',
      image = JStr [], url = SHEIN_BASE_URL @ ''/p/ A1'', category = ''Men''\<rparr>"

definition plain_page :: json where
  "plain_page = JObj [(''products'', JArr [JObj [(''code'', JStr ''A1'')]])]"

definition plain_listing :: "string \<Rightarrow> int \<Rightarrow> nat \<Rightarrow> page_attempt" where
  "plain_listing g pg i = (if g = ''Men'' then Got 200 (Some plain_page) else GetRaised)"

definition plain_cycle :: cycle_env where
  "plain_cycle =
     \<lparr>now_date = 0, now_hour = 12, listing = plain_listing, page_order = in_order,
      detail = out_of_stock_detail, verify_order = as_submitted\<rparr>"

definition plain_record :: product where
  "plain_record =
     \<lparr>code = JStr ''A1'', name = JStr ''Unknown Product'', price = JStr ''N/A'',
      image = JStr [], url = SHEIN_BASE_URL @ ''/p/A1'', category = ''Men''\<rparr>"

section \<open>The daily reset over a run\<close>









section \<open>Basic facts\<close>

declare digits.simps [simp del]

lemma thn_Inr [simp]: "thn (Inr x) f = f x"
  by (simp add: thn_def)

lemma thn_Inl [simp]: "thn (Inl e) f = Inl e"
  by (simp add: thn_def)

lemma thn_eq_Inr: "thn m f = Inr y \<longleftrightarrow> (\<exists>x. m = Inr x \<and> f x = Inr y)"
  by (cases m) auto

lemma field_JObj [simp]: "field (JObj kvs) k = map_of kvs k"
  by (simp add: field_def)

lemma is_objE: "is_obj v \<Longrightarrow> (\<And>kvs. v = JObj kvs \<Longrightarrow> P) \<Longrightarrow> P"
  by (cases v) auto

lemma field_SomeE: "field v k = Some x \<Longrightarrow> (\<And>kvs. v = JObj kvs \<Longrightarrow> map_of kvs k = Some x \<Longrightarrow> P) \<Longrightarrow> P"
  by (cases v) (auto simp: field_def)

lemma filter_empty_ex: "(filter P xs \<noteq> []) = list_ex P xs"
  by (induction xs) auto

section \<open>Stock verification\<close>

lemma field2_JObj [simp]:
  "field2 (JObj kvs) k k' = (case map_of kvs k of Some r \<Rightarrow> field r k' | None \<Rightarrow> None)"
  by (simp add: field2_def)

lemma py_gt0_num: "is_num q \<Longrightarrow> py_gt0 q = Inr (positive q)"
  by (cases q) simp_all

lemma py_gt0_other: "\<not> is_num q \<Longrightarrow> py_gt0 q = Inl TypeError"
  by (cases q) simp_all

lemma size_label_ok:
  "quals_ok qs \<Longrightarrow>
   size_label qs =
     Inr (case find size_tagged qs of
            None \<Rightarrow> JStr ''Unknown''
          | Some q \<Rightarrow> (case field q ''value'' of Some x \<Rightarrow> x | None \<Rightarrow> JNull))"
proof (induction qs)
  case Nil
  then show ?case by simp
next
  case (Cons q qs)
  then obtain kvs where q: "q = JObj kvs" by (auto elim: is_objE)
  show ?case using Cons by (auto simp: q size_tagged_def split: option.splits)
qed

lemma size_label_raises: "\<not> quals_ok qs \<Longrightarrow> size_label qs = Inl AttributeError"
proof (induction qs)
  case Nil
  then show ?case by simp
next
  case (Cons q qs)
  show ?case
  proof (cases "is_obj q")
    case False
    then show ?thesis by (cases q) simp_all
  next
    case True
    then obtain kvs where q: "q = JObj kvs" by (auto elim: is_objE)
    from Cons.prems True have t: "\<not> size_tagged q" and r: "\<not> quals_ok qs" by simp_all
    from Cons.IH [OF r] t show ?thesis
      by (auto simp: q size_tagged_def split: option.splits)
  qed
qed

lemma stock_reads:
  assumes "stock_ok (JObj kvs)"
  shows "get2 (JObj kvs) ''stock'' (JObj []) ''stockLevel'' (JInt 0) = Inr (spec_quantity (JObj kvs))"
    and "get2 (JObj kvs) ''stock'' (JObj []) ''stockLevelStatus'' (JStr ''outOfStock'')
           = Inr (spec_status (JObj kvs))"
proof -
  show "get2 (JObj kvs) ''stock'' (JObj []) ''stockLevel'' (JInt 0) = Inr (spec_quantity (JObj kvs))"
  proof (cases "map_of kvs ''stock''")
    case None
    then show ?thesis by (simp add: get2_def spec_quantity_def)
  next
    case (Some s)
    with assms obtain skv where "s = JObj skv" by (auto simp: stock_ok_def elim: is_objE)
    with Some show ?thesis by (simp add: get2_def spec_quantity_def)
  qed
  show "get2 (JObj kvs) ''stock'' (JObj []) ''stockLevelStatus'' (JStr ''outOfStock'')
           = Inr (spec_status (JObj kvs))"
  proof (cases "map_of kvs ''stock''")
    case None
    then show ?thesis by (simp add: get2_def spec_status_def)
  next
    case (Some s)
    with assms obtain skv where "s = JObj skv" by (auto simp: stock_ok_def elim: is_objE)
    with Some show ?thesis by (simp add: get2_def spec_status_def)
  qed
qed

lemma stock_raises:
  assumes "\<not> stock_ok (JObj kvs)"
  shows "get2 (JObj kvs) ''stock'' (JObj []) k d = Inl AttributeError"
proof -
  from assms obtain s where s: "map_of kvs ''stock'' = Some s" "\<not> is_obj s"
    by (auto simp: stock_ok_def split: option.splits)
  then show ?thesis by (cases s) (simp_all add: get2_def)
qed

lemma size_reads:
  assumes "qualifiers_ok (JObj kvs)"
  shows "variant_size (JObj kvs) = Inr (spec_size (JObj kvs))"
proof (cases "map_of kvs ''variantOptionQualifiers''")
  case None
  then show ?thesis by (simp add: variant_size_def spec_size_def spec_qualifiers_def)
next
  case (Some q)
  with assms obtain qs where qs: "py_iter q = Inr qs" "quals_ok qs"
    by (auto simp: qualifiers_ok_def split: sum.splits)
  with Some show ?thesis
    by (simp add: variant_size_def spec_size_def spec_qualifiers_def size_label_ok)
qed

lemma size_raises:
  assumes "\<not> qualifiers_ok (JObj kvs)"
  shows "\<exists>e. variant_size (JObj kvs) = Inl e"
proof -
  from assms obtain q where q: "map_of kvs ''variantOptionQualifiers'' = Some q"
    by (auto simp: qualifiers_ok_def split: option.splits)
  show ?thesis
  proof (cases "py_iter q")
    case (Inl e)
    with q show ?thesis by (simp add: variant_size_def)
  next
    case (Inr qs)
    with assms q have "\<not> quals_ok qs" by (simp add: qualifiers_ok_def)
    with q Inr show ?thesis by (simp add: variant_size_def size_label_raises)
  qed
qed

lemma variant_entry_reads:
  assumes "readable_variant v"
  shows "variant_entry repr v = Inr (if spec_qualifies v then Some (spec_detail repr v) else None)"
proof -
  from assms obtain kvs where v: "v = JObj kvs" by (auto simp: readable_variant_def elim: is_objE)
  from assms have s: "stock_ok (JObj kvs)" and n: "is_num (spec_quantity (JObj kvs))"
      and q: "qualifiers_ok (JObj kvs)"
    by (simp_all add: readable_variant_def v)
  show ?thesis
    by (simp add: v variant_entry_def stock_reads [OF s] size_reads [OF q] py_gt0_num [OF n]
        spec_qualifies_def spec_detail_def)
qed

lemma variant_entry_raises:
  assumes "\<not> readable_variant v"
  shows "\<exists>e. variant_entry repr v = Inl e"
proof (cases "is_obj v")
  case False
  then show ?thesis by (cases v) (simp_all add: variant_entry_def get2_def)
next
  case True
  then obtain kvs where v: "v = JObj kvs" by (auto elim: is_objE)
  show ?thesis
  proof (cases "stock_ok (JObj kvs)")
    case False
    then show ?thesis by (simp add: v variant_entry_def stock_raises)
  next
    case s: True
    show ?thesis
    proof (cases "qualifiers_ok (JObj kvs)")
      case False
      from size_raises [OF this] obtain e where "variant_size (JObj kvs) = Inl e" ..
      then show ?thesis by (simp add: v variant_entry_def stock_reads [OF s])
    next
      case q: True
      with assms s have "\<not> is_num (spec_quantity (JObj kvs))"
        by (simp add: readable_variant_def v)
      then show ?thesis
        by (simp add: v variant_entry_def stock_reads [OF s] size_reads [OF q] py_gt0_other)
    qed
  qed
qed

lemma in_stock_sizes_reads:
  "list_all readable_variant vs \<Longrightarrow>
   in_stock_sizes repr vs = Inr (map (spec_detail repr) (filter spec_qualifies vs))"
  by (induction vs) (simp_all add: variant_entry_reads)

lemma in_stock_sizes_raises:
  "\<not> list_all readable_variant vs \<Longrightarrow> \<exists>e. in_stock_sizes repr vs = Inl e"
proof (induction vs)
  case Nil
  then show ?case by simp
next
  case (Cons v vs)
  show ?case
  proof (cases "readable_variant v")
    case False
    from variant_entry_raises [OF this, of repr] obtain e where "variant_entry repr v = Inl e" ..
    then show ?thesis by simp
  next
    case True
    with Cons.prems have "\<not> list_all readable_variant vs" by simp
    from Cons.IH [OF this] obtain e where "in_stock_sizes repr vs = Inl e" ..
    then show ?thesis by (simp add: variant_entry_reads [OF True])
  qed
qed

lemma details_path:
  assumes "details_of state = Some d"
  shows "in2 ''product'' ''productDetails'' state = Inr True"
    and "getitem2 state ''product'' ''productDetails'' = Inr d"
proof -
  from assms obtain p where p: "field state ''product'' = Some p" "field p ''productDetails'' = Some d"
    by (auto simp: details_of_def field2_def split: option.splits)
  then obtain st pk where "state = JObj st" "map_of st ''product'' = Some (JObj pk)"
      "map_of pk ''productDetails'' = Some d"
    by (auto elim!: field_SomeE)
  then show "in2 ''product'' ''productDetails'' state = Inr True"
    and "getitem2 state ''product'' ''productDetails'' = Inr d"
    by (simp_all add: in2_def getitem2_def)
qed

lemma read_state_details:
  assumes "details_of state = Some d"
  shows "case readable_variants d of
           None \<Rightarrow> \<exists>e. read_state repr state body = Inl e
         | Some vs \<Rightarrow> read_state repr state body = Inr (spec_verdict repr vs)"
proof -
  note path = details_path [OF assms]
  have rs: "read_state repr state body =
         thn (py_get d ''variantOptions'' (JArr [])) (\<lambda>variants.
         thn (py_iter variants) (\<lambda>vs.
         thn (in_stock_sizes repr vs) (\<lambda>sizes.
           if sizes \<noteq> [] then Inr (Some True, join '', '' sizes)
           else Inr (Some False, ''Out of Stock''))))"
    by (simp add: read_state_def path)
  show ?thesis
  proof (cases "is_obj d")
    case False
    then have "py_get d ''variantOptions'' (JArr []) = Inl AttributeError" by (cases d) simp_all
    with False show ?thesis by (simp add: rs readable_variants_def)
  next
    case True
    then obtain dk where dk: "d = JObj dk" by (auto elim: is_objE)
    show ?thesis
    proof (cases "map_of dk ''variantOptions''")
      case None
      then show ?thesis by (simp add: rs dk readable_variants_def spec_verdict_def)
    next
      case (Some x)
      show ?thesis
      proof (cases "py_iter x")
        case (Inl e)
        with Some show ?thesis by (simp add: rs dk readable_variants_def)
      next
        case (Inr vs)
        show ?thesis
        proof (cases "list_all readable_variant vs")
          case True
          with Some Inr show ?thesis
            by (simp add: rs dk readable_variants_def spec_verdict_def in_stock_sizes_reads
                filter_empty_ex)
        next
          case False
          from in_stock_sizes_raises [OF this, of repr] obtain e
            where "in_stock_sizes repr vs = Inl e" ..
          with Some Inr False show ?thesis by (simp add: rs dk readable_variants_def)
        qed
      qed
    qed
  qed
qed

lemma py_in_getitem:
  "py_in k v = Inr True \<Longrightarrow> py_getitem v k = Inl TypeError \<or> (\<exists>x. field v k = Some x \<and> py_getitem v k = Inr x)"
  by (cases v) (auto split: option.splits)

lemma in2_lacks:
  assumes "lacks_details state" and "in2 ''product'' ''productDetails'' state = Inr True"
  shows "\<exists>e. getitem2 state ''product'' ''productDetails'' = Inl e"
proof -
  from assms(2) have a: "py_in ''product'' state = Inr True"
    by (auto simp: in2_def thn_eq_Inr split: if_splits)
  with assms(2) obtain p where p: "py_getitem state ''product'' = Inr p"
      and b: "py_in ''productDetails'' p = Inr True"
    by (auto simp: in2_def thn_eq_Inr)
  from py_in_getitem [OF a] p have "field state ''product'' = Some p" by auto
  with assms(1) have "field p ''productDetails'' = None" by (simp add: lacks_details_def)
  with py_in_getitem [OF b] have "py_getitem p ''productDetails'' = Inl TypeError" by auto
  with p show ?thesis by (simp add: getitem2_def)
qed

lemma read_state_lacks:
  assumes "lacks_details state"
  shows "read_state repr state body =
           Inr (Some False, if sublist stock_marker body then ''Structure Mismatch (OOS Safety)''
                            else ''Structure Mismatch'')
         \<or> (\<exists>e. read_state repr state body = Inl e)"
proof (cases "in2 ''product'' ''productDetails'' state")
  case (Inl e)
  then show ?thesis by (simp add: read_state_def)
next
  case (Inr b)
  show ?thesis
  proof (cases b)
    case True
    with Inr in2_lacks [OF assms] obtain e where "getitem2 state ''product'' ''productDetails'' = Inl e"
      by auto
    with Inr True show ?thesis by (simp add: read_state_def)
  next
    case False
    with Inr show ?thesis by (simp add: read_state_def)
  qed
qed

lemma in2_object_lacks:
  assumes "is_obj state" and "lacks_details state"
    and "field state ''product'' = None \<or> (\<exists>p. field state ''product'' = Some p \<and> is_obj p)"
  shows "in2 ''product'' ''productDetails'' state = Inr False"
proof -
  from assms(1) obtain st where st: "state = JObj st" by (auto elim: is_objE)
  from assms(3) show ?thesis
  proof
    assume "field state ''product'' = None"
    then show ?thesis by (simp add: in2_def st)
  next
    assume "\<exists>p. field state ''product'' = Some p \<and> is_obj p"
    then obtain pk where pk: "map_of st ''product'' = Some (JObj pk)"
      by (auto simp: st elim: is_objE)
    with assms(2) have "map_of pk ''productDetails'' = None"
      by (simp add: lacks_details_def st)
    then show ?thesis using pk by (simp add: in2_def st)
  qed
qed

text \<open>
  C3, as the claim states it, fails on a page that is fetched and parsed and whose only
  variant has the status flag \<^verbatim>\<open>"inStock"\<close> and the quantity \<^verbatim>\<open>null\<close>: the
  comparison of the quantity with zero raises, the outer handler answers
  \<^verbatim>\<open>"Error"\<close>, and the product is reported not in stock. The same answer is given
  when \<^verbatim>\<open>stock\<close>, \<^verbatim>\<open>variantOptionQualifiers\<close>, a qualifier, a variant,
  \<^verbatim>\<open>variantOptions\<close> or the details are \<^verbatim>\<open>null\<close>, where the claim asks for
  \<^verbatim>\<open>"Out of Stock"\<close>.
\<close>

theorem null_quantity_counterexample:
  "status_code ok_page = 200
   \<and> parsed_as null_level_state (resp_text ok_page) = Parsed null_level_state
   \<and> details_of null_level_state = Some null_level_details
   \<and> field null_level_details ''variantOptions'' = Some (JArr [null_level_variant])
   \<and> spec_status null_level_variant = JStr ''inStock''
   \<and> verify_stock plain_repr (parsed_as null_level_state) (Returned ok_page) = (Some False, ''Error'')
   \<and> verify_stock plain_repr (parsed_as (variants_state [JObj [(''stock'', JNull)]]))
         (Returned ok_page) = (Some False, ''Error'')
   \<and> verify_stock plain_repr
         (parsed_as (variants_state [JObj [(''variantOptionQualifiers'', JNull)]]))
         (Returned ok_page) = (Some False, ''Error'')
   \<and> verify_stock plain_repr
         (parsed_as (variants_state [JObj [(''variantOptionQualifiers'', JArr [JNull])]]))
         (Returned ok_page) = (Some False, ''Error'')
   \<and> verify_stock plain_repr (parsed_as (variants_state [JNull])) (Returned ok_page)
       = (Some False, ''Error'')
   \<and> verify_stock plain_repr (parsed_as (details_state (JObj [(''variantOptions'', JNull)])))
         (Returned ok_page) = (Some False, ''Error'')
   \<and> verify_stock plain_repr (parsed_as (details_state JNull)) (Returned ok_page)
       = (Some False, ''Error'')"
  by (simp add: ok_page_def parsed_as_def null_level_state_def null_level_details_def
      null_level_variant_def details_of_def spec_status_def verify_stock_def read_state_def in2_def
      getitem2_def variant_entry_def get2_def variant_size_def variants_state_def details_state_def)

text \<open>
  C3, amended. On a detail page that is fetched with status 200 and whose preloaded state
  parses, \<^verbatim>\<open>verify_stock\<close> behaves as follows. When the state has the
  \<^verbatim>\<open>product.productDetails\<close> path, it returns not-in-stock with reason
  \<^verbatim>\<open>"Error"\<close> if the details or one of the variant records cannot be read (the
  details are not an object, \<^verbatim>\<open>variantOptions\<close> cannot be visited, a variant or its
  \<^verbatim>\<open>stock\<close> is not an object, a quantity is not a number, a qualifier before the
  first size qualifier is not an object). If all can be read it returns the verdict the
  specification words: a variant counts exactly when its quantity is above zero or its
  status flag is \<^verbatim>\<open>"inStock"\<close>, its detail is the size with the quantity in brackets
  when the quantity is above zero and with \<^verbatim>\<open>(In Stock)\<close> otherwise, the size is
  the value of the first qualifier tagged \<^verbatim>\<open>size\<close> or \<^verbatim>\<open>"Unknown"\<close>, and the
  result is true with the details joined by commas when a variant counts and false with
  \<^verbatim>\<open>"Out of Stock"\<close> when none does. When the state lacks the path, the result is
  not-in-stock with one of the two structure-mismatch reasons or with \<^verbatim>\<open>"Error"\<close>.
\<close>

theorem verify_stock_variants:
  assumes "status_code resp = 200"
    and "search (resp_text resp) = Parsed state"
  shows "(\<forall>d. details_of state = Some d \<longrightarrow>
           verify_stock repr search (Returned resp) =
             (case readable_variants d of
                None \<Rightarrow> (Some False, ''Error'')
              | Some vs \<Rightarrow>
                  if list_ex (\<lambda>v. positive (spec_quantity v) \<or> spec_status v = JStr ''inStock'') vs
                  then (Some True,
                        join '', ''
                          (map (\<lambda>v. if positive (spec_quantity v)
                                     then py_str repr (spec_size v) @ '' (''
                                          @ py_str repr (spec_quantity v) @ '')''
                                     else py_str repr (spec_size v) @ '' (In Stock)'')
                             (filter (\<lambda>v. positive (spec_quantity v) \<or> spec_status v = JStr ''inStock'') vs)))
                  else (Some False, ''Out of Stock'')))
       \<and> (details_of state = None \<longrightarrow>
            verify_stock repr search (Returned resp) =
              (Some False, if sublist stock_marker (resp_text resp)
                           then ''Structure Mismatch (OOS Safety)'' else ''Structure Mismatch'')
            \<or> verify_stock repr search (Returned resp) = (Some False, ''Error''))"
proof (intro conjI allI impI)
  fix d
  assume s: "details_of state = Some d"
  have q: "spec_qualifies = (\<lambda>v. positive (spec_quantity v) \<or> spec_status v = JStr ''inStock'')"
    by (rule ext) (simp add: spec_qualifies_def)
  have d: "spec_detail repr = (\<lambda>v. if positive (spec_quantity v)
                                   then py_str repr (spec_size v) @ '' (''
                                        @ py_str repr (spec_quantity v) @ '')''
                                   else py_str repr (spec_size v) @ '' (In Stock)'')"
    by (rule ext) (simp add: spec_detail_def)
  note r = read_state_details [OF s, of repr "resp_text resp"]
  have "verify_stock repr search (Returned resp) =
           (case readable_variants d of
              None \<Rightarrow> (Some False, ''Error'')
            | Some vs \<Rightarrow> spec_verdict repr vs)"
  proof (cases "readable_variants d")
    case None
    with r obtain e where "read_state repr state (resp_text resp) = Inl e" by auto
    with None assms(1,2) show ?thesis by (simp add: verify_stock_def)
  next
    case (Some vs)
    with r have "read_state repr state (resp_text resp) = Inr (spec_verdict repr vs)" by simp
    with Some assms(1,2) show ?thesis by (simp add: verify_stock_def)
  qed
  then show "verify_stock repr search (Returned resp) =
             (case readable_variants d of
                None \<Rightarrow> (Some False, ''Error'')
              | Some vs \<Rightarrow>
                  if list_ex (\<lambda>v. positive (spec_quantity v) \<or> spec_status v = JStr ''inStock'') vs
                  then (Some True,
                        join '', ''
                          (map (\<lambda>v. if positive (spec_quantity v)
                                     then py_str repr (spec_size v) @ '' (''
                                          @ py_str repr (spec_quantity v) @ '')''
                                     else py_str repr (spec_size v) @ '' (In Stock)'')
                             (filter (\<lambda>v. positive (spec_quantity v) \<or> spec_status v = JStr ''inStock'') vs)))
                  else (Some False, ''Out of Stock''))"
    unfolding spec_verdict_def q d .
next
  assume "details_of state = None"
  then have "lacks_details state"
    by (simp add: details_of_def field2_def lacks_details_def split: option.splits)
  from read_state_lacks [OF this, of repr "resp_text resp"]
  show "verify_stock repr search (Returned resp) =
              (Some False, if sublist stock_marker (resp_text resp)
                           then ''Structure Mismatch (OOS Safety)'' else ''Structure Mismatch'')
            \<or> verify_stock repr search (Returned resp) = (Some False, ''Error'')"
    using assms(1,2) by (auto simp: verify_stock_def)
qed

text \<open>
  C3, amended, at a page with three variants: the first has quantity 3 and size M, the
  second has no quantity but the status flag and no size, the third is out of stock; and
  at a page whose state has an empty \<^verbatim>\<open>product\<close> object.
\<close>

theorem verify_stock_variants_witness:
  "status_code ok_page = 200
   \<and> parsed_as sample_state (resp_text ok_page) = Parsed sample_state
   \<and> details_of sample_state = Some sample_details
   \<and> readable_variants sample_details = Some sample_variants
   \<and> verify_stock plain_repr (parsed_as sample_state) (Returned ok_page)
       = (Some True, ''M (3), Unknown (In Stock)'')
   \<and> parsed_as empty_product_state (resp_text ok_page) = Parsed empty_product_state
   \<and> details_of empty_product_state = None
   \<and> fst (verify_stock plain_repr (parsed_as empty_product_state) (Returned ok_page)) = Some False"
proof -
  have h: "status_code ok_page = 200"
    "parsed_as sample_state (resp_text ok_page) = Parsed sample_state"
    by (simp_all add: ok_page_def parsed_as_def)
  have s: "details_of sample_state = Some sample_details"
    by (simp add: sample_state_def sample_details_def details_of_def)
  have r: "readable_variants sample_details = Some sample_variants"
    by (simp add: readable_variants_def sample_details_def sample_variants_def readable_variant_def
        stock_ok_def qualifiers_ok_def spec_quantity_def size_tagged_def)
  from verify_stock_variants [of ok_page "parsed_as sample_state" sample_state plain_repr, OF h,
      THEN conjunct1, rule_format, OF s]
  have v: "verify_stock plain_repr (parsed_as sample_state) (Returned ok_page)
       = (Some True, ''M (3), Unknown (In Stock)'')"
    unfolding r
    by (simp add: sample_variants_def spec_quantity_def spec_status_def spec_size_def
        spec_qualifiers_def size_tagged_def show_int_def digits.simps digit_def)
  have h': "parsed_as empty_product_state (resp_text ok_page) = Parsed empty_product_state"
    by (simp add: parsed_as_def)
  have n: "details_of empty_product_state = None"
    by (simp add: empty_product_state_def details_of_def)
  from verify_stock_variants [of ok_page "parsed_as empty_product_state" empty_product_state
      plain_repr, OF h(1) h', THEN conjunct2, rule_format, OF n]
  have e: "fst (verify_stock plain_repr (parsed_as empty_product_state) (Returned ok_page)) = Some False"
    by auto
  from h s r v h' n e show ?thesis by simp
qed

text \<open>
  C4, as the claim states it, fails where the \<^verbatim>\<open>product\<close> member is
  \<^verbatim>\<open>null\<close>: the state parses and lacks the path, but the membership test raises
  \<^verbatim>\<open>TypeError\<close> and the outer handler answers \<^verbatim>\<open>"Error"\<close>.
\<close>

theorem structure_mismatch_counterexample:
  "status_code ok_page = 200
   \<and> parsed_as null_product_state (resp_text ok_page) = Parsed null_product_state
   \<and> lacks_details null_product_state
   \<and> \<not> sublist stock_marker (resp_text ok_page)
   \<and> verify_stock plain_repr (parsed_as null_product_state) (Returned ok_page) = (Some False, ''Error'')
   \<and> verify_stock plain_repr (parsed_as null_product_state) (Returned ok_page)
       \<noteq> (Some False, ''Structure Mismatch'')"
  by (simp add: ok_page_def parsed_as_def null_product_state_def lacks_details_def stock_marker_def
      verify_stock_def read_state_def in2_def field_def)

text \<open>
  C4, amended. On a page fetched with status 200 whose preloaded state parses and lacks
  the \<^verbatim>\<open>product.productDetails\<close> path, \<^verbatim>\<open>verify_stock\<close> never returns in-stock:
  it returns not-in-stock with reason \<^verbatim>\<open>"Structure Mismatch (OOS Safety)"\<close> when the
  body contains the marker and \<^verbatim>\<open>"Structure Mismatch"\<close> otherwise, or not-in-stock
  with reason \<^verbatim>\<open>"Error"\<close>. The reason is one of the first two whenever the state is an
  object whose \<^verbatim>\<open>product\<close> member is absent or is an object.
\<close>

theorem verify_stock_structure_mismatch:
  assumes "status_code resp = 200"
    and "search (resp_text resp) = Parsed state"
    and "lacks_details state"
  shows "(verify_stock repr search (Returned resp) =
            (Some False, if sublist stock_marker (resp_text resp)
                         then ''Structure Mismatch (OOS Safety)'' else ''Structure Mismatch'')
          \<or> verify_stock repr search (Returned resp) = (Some False, ''Error''))
       \<and> (is_obj state
            \<and> (field state ''product'' = None \<or> (\<exists>p. field state ''product'' = Some p \<and> is_obj p))
          \<longrightarrow> verify_stock repr search (Returned resp) =
                (Some False, if sublist stock_marker (resp_text resp)
                             then ''Structure Mismatch (OOS Safety)'' else ''Structure Mismatch''))"
proof
  from read_state_lacks [OF assms(3), of repr "resp_text resp"]
  show "verify_stock repr search (Returned resp) =
            (Some False, if sublist stock_marker (resp_text resp)
                         then ''Structure Mismatch (OOS Safety)'' else ''Structure Mismatch'')
          \<or> verify_stock repr search (Returned resp) = (Some False, ''Error'')"
    using assms(1,2) by (auto simp: verify_stock_def)
next
  show "is_obj state
            \<and> (field state ''product'' = None \<or> (\<exists>p. field state ''product'' = Some p \<and> is_obj p))
          \<longrightarrow> verify_stock repr search (Returned resp) =
                (Some False, if sublist stock_marker (resp_text resp)
                             then ''Structure Mismatch (OOS Safety)'' else ''Structure Mismatch'')"
  proof
    assume a: "is_obj state
            \<and> (field state ''product'' = None \<or> (\<exists>p. field state ''product'' = Some p \<and> is_obj p))"
    then have "in2 ''product'' ''productDetails'' state = Inr False"
      using in2_object_lacks [OF _ assms(3)] by blast
    then show "verify_stock repr search (Returned resp) =
                (Some False, if sublist stock_marker (resp_text resp)
                             then ''Structure Mismatch (OOS Safety)'' else ''Structure Mismatch'')"
      using assms(1,2) by (simp add: verify_stock_def read_state_def)
  qed
qed

text \<open>
  C4, amended, at a page whose state has an empty \<^verbatim>\<open>product\<close> object and whose body
  contains the marker.
\<close>

theorem verify_stock_structure_mismatch_witness:
  "status_code marker_page = 200
   \<and> parsed_as empty_product_state (resp_text marker_page) = Parsed empty_product_state
   \<and> lacks_details empty_product_state
   \<and> is_obj empty_product_state
   \<and> (\<exists>p. field empty_product_state ''product'' = Some p \<and> is_obj p)
   \<and> sublist stock_marker (resp_text marker_page)
   \<and> verify_stock plain_repr (parsed_as empty_product_state) (Returned marker_page)
       = (Some False, ''Structure Mismatch (OOS Safety)'')"
proof -
  have s: "sublist stock_marker (resp_text marker_page)"
    unfolding marker_page_def sublist_def by (intro exI [of _ "''x''"] exI [of _ "''y''"]) simp
  have h: "status_code marker_page = 200"
    "parsed_as empty_product_state (resp_text marker_page) = Parsed empty_product_state"
    "lacks_details empty_product_state"
    by (simp_all add: marker_page_def parsed_as_def empty_product_state_def lacks_details_def)
  have o: "is_obj empty_product_state"
    "\<exists>p. field empty_product_state ''product'' = Some p \<and> is_obj p"
    by (simp_all add: empty_product_state_def)
  from verify_stock_structure_mismatch
         [of marker_page "parsed_as empty_product_state" empty_product_state plain_repr, OF h] o s
  have "verify_stock plain_repr (parsed_as empty_product_state) (Returned marker_page)
       = (Some False, ''Structure Mismatch (OOS Safety)'')"
    by simp
  with h o s show ?thesis by simp
qed

section \<open>Handling one verification result\<close>

lemma get2_Inr_obj: "get2 s c d k d' = Inr x \<Longrightarrow> is_obj s"
  by (cases s) (auto simp: get2_def)

lemma get2_entry:
  assumes "entry_ok store c"
  shows "\<exists>prev. get2 store c (JObj []) ''in_stock'' (JBool False) = Inr prev
           \<and> truthy prev = in_stock_before store c"
proof -
  from assms obtain st where st: "store = JObj st" by (auto simp: entry_ok_def elim: is_objE)
  show ?thesis
  proof (cases "map_of st c")
    case None
    then show ?thesis by (simp add: st get2_def in_stock_before_def)
  next
    case (Some r)
    with assms obtain rk where rk: "r = JObj rk" by (auto simp: entry_ok_def st elim: is_objE)
    show ?thesis using Some
      by (cases "map_of rk ''in_stock''") (simp_all add: st rk get2_def in_stock_before_def)
  qed
qed

lemma handle_none: "fst res = None \<Longrightarrow> handle_result sv p c res m = m"
  by (simp add: handle_result_def)

lemma handle_raise:
  "get2 (stock_state m) c (JObj []) ''in_stock'' (JBool False) = Inl e \<Longrightarrow> handle_result sv p c res m = m"
  by (simp add: handle_result_def split: option.splits)

lemma handle_same:
  "fst res = Some b \<Longrightarrow> get2 (stock_state m) c (JObj []) ''in_stock'' (JBool False) = Inr prev \<Longrightarrow>
   truthy prev = b \<Longrightarrow> handle_result sv p c res m = m"
  by (simp add: handle_result_def)

lemma handle_restock:
  assumes "fst res = Some True" and "stock_state m = JObj st"
    and "get2 (JObj st) c (JObj []) ''in_stock'' (JBool False) = Inr prev" and "\<not> truthy prev"
  shows "handle_result sv p c res m =
    (if delivered (telegram sv (length (outbox m))) (image p)
     then m\<lparr>outbox := outbox m @ [restock_message sv p (snd res)],
            stock_state := JObj (AList.update c (in_stock_record (snd res)) st),
            state_file := Some (JObj (AList.update c (in_stock_record (snd res)) st))\<rparr>
     else m\<lparr>outbox := outbox m @ [restock_message sv p (snd res)]\<rparr>)"
  using assms
  by (simp add: handle_result_def send_telegram_message_def save_state_def restock_message_def
      in_stock_record_def)

lemma handle_oos:
  assumes "fst res = Some False" and "stock_state m = JObj st"
    and "get2 (JObj st) c (JObj []) ''in_stock'' (JBool False) = Inr prev" and "truthy prev"
  shows "handle_result sv p c res m =
     m\<lparr>stock_state := JObj (AList.update c out_of_stock_record st),
       state_file := Some (JObj (AList.update c out_of_stock_record st))\<rparr>"
  using assms by (simp add: handle_result_def save_state_def out_of_stock_record_def)

lemma handle_cases:
  obtains (same) "handle_result sv p c res m = m"
  | (sent) x where "handle_result sv p c res m = m\<lparr>outbox := outbox m @ [x]\<rparr>"
  | (restock) x v st where "stock_state m = JObj st"
      "handle_result sv p c res m =
         m\<lparr>outbox := outbox m @ [x], stock_state := JObj (AList.update c v st),
           state_file := Some (JObj (AList.update c v st))\<rparr>"
  | (oos) v st where "stock_state m = JObj st"
      "handle_result sv p c res m =
         m\<lparr>stock_state := JObj (AList.update c v st),
           state_file := Some (JObj (AList.update c v st))\<rparr>"
proof (cases "fst res")
  case None
  then show ?thesis using same by (simp add: handle_none)
next
  case (Some b)
  show ?thesis
  proof (cases "get2 (stock_state m) c (JObj []) ''in_stock'' (JBool False)")
    case (Inl e)
    then show ?thesis using same by (simp add: handle_raise)
  next
    case (Inr prev)
    then obtain st where st: "stock_state m = JObj st"
      by (auto dest: get2_Inr_obj elim: is_objE)
    from Inr st have g: "get2 (JObj st) c (JObj []) ''in_stock'' (JBool False) = Inr prev"
      by simp
    show ?thesis
    proof (cases "truthy prev = b")
      case True
      with Some Inr show ?thesis using same by (simp add: handle_same)
    next
      case False
      show ?thesis
      proof (cases b)
        case True
        with False have np: "\<not> truthy prev" by simp
        from Some True have r: "fst res = Some True" by simp
        show ?thesis
          using handle_restock [OF r st g np, of sv p] sent restock st
          by (cases "delivered (telegram sv (length (outbox m))) (image p)") simp_all
      next
        case f: False
        with False have np: "truthy prev" by simp
        from Some f have r: "fst res = Some False" by simp
        show ?thesis
          using handle_oos [OF r st g np, of sv p] oos st by simp
      qed
    qed
  qed
qed

lemma handle_other_entry:
  assumes "c' \<noteq> c"
  shows "field (stock_state (handle_result sv p c' res m)) c = field (stock_state m) c"
  by (cases rule: handle_cases [of sv p c' res m]) (use assms in \<open>auto simp: update_conv'\<close>)

lemma handle_outbox:
  "length (outbox (handle_result sv p c res m)) \<le> Suc (length (outbox m))"
  by (cases rule: handle_cases [of sv p c res m]) simp_all



section \<open>The loop over the completed verifications\<close>

lemma loop_seen:
  "clean_code (py_repr sv) raw \<in> seen \<Longrightarrow>
   verification_loop sv found ((raw, res) # rest) seen m = verification_loop sv found rest seen m"
  by simp

lemma loop_step:
  "clean_code (py_repr sv) raw \<notin> seen \<Longrightarrow> py_lookup found raw = Inr p \<Longrightarrow>
   verification_loop sv found ((raw, res) # rest) seen m =
     verification_loop sv found rest (insert (clean_code (py_repr sv) raw) seen)
       (handle_result sv p (clean_code (py_repr sv) raw) res m)"
  by (simp add: Let_def)

lemma loop_abort:
  "clean_code (py_repr sv) raw \<notin> seen \<Longrightarrow> py_lookup found raw = Inl e \<Longrightarrow>
   verification_loop sv found ((raw, res) # rest) seen m = (Some e, m)"
  by (simp add: Let_def)

declare verification_loop.simps(2) [simp del]

lemmas loop_simps = loop_seen loop_step loop_abort

lemma loop_entry_kept:
  "c \<in> seen \<or> (\<forall>x \<in> set cs. clean_code (py_repr sv) (fst x) = c \<longrightarrow> fst (snd x) = None) \<Longrightarrow>
   field (stock_state (snd (verification_loop sv found cs seen m))) c = field (stock_state m) c"
proof (induction cs arbitrary: seen m)
  case Nil
  then show ?case by simp
next
  case (Cons x cs)
  obtain raw res where x: "x = (raw, res)" by (cases x)
  let ?c = "clean_code (py_repr sv) raw"
  show ?case
  proof (cases "?c \<in> seen")
    case True
    with Cons show ?thesis by (auto simp: x loop_simps)
  next
    case False
    show ?thesis
    proof (cases "py_lookup found raw")
      case (Inl e)
      with False show ?thesis by (simp add: x loop_simps)
    next
      case (Inr p)
      have keep: "field (stock_state (handle_result sv p ?c res m)) c = field (stock_state m) c"
      proof (cases "?c = c")
        case True
        with Cons.prems False have "fst res = None" by (auto simp: x)
        then show ?thesis by (simp add: handle_none)
      next
        case False
        then show ?thesis by (rule handle_other_entry)
      qed
      from Cons.prems have "c \<in> insert ?c seen \<or>
          (\<forall>x \<in> set cs. clean_code (py_repr sv) (fst x) = c \<longrightarrow> fst (snd x) = None)"
        by auto
      from Cons.IH [OF this] keep False Inr show ?thesis by (simp add: x loop_simps)
    qed
  qed
qed


lemma loop_outbox:
  "finite seen \<Longrightarrow>
   length (outbox (snd (verification_loop sv found cs seen m)))
     \<le> length (outbox m) + card (codes_of sv cs - seen)"
proof (induction cs arbitrary: seen m)
  case Nil
  then show ?case by simp
next
  case (Cons x cs)
  obtain raw res where x: "x = (raw, res)" by (cases x)
  let ?c = "clean_code (py_repr sv) raw"
  have fin: "finite (codes_of sv cs)" by (simp add: codes_of_def)
  show ?case
  proof (cases "?c \<in> seen")
    case True
    then have "codes_of sv (x # cs) - seen = codes_of sv cs - seen"
      by (auto simp: codes_of_def x)
    with Cons True show ?thesis by (simp add: x loop_simps)
  next
    case False
    show ?thesis
    proof (cases "py_lookup found raw")
      case (Inl e)
      with False show ?thesis by (simp add: x loop_simps)
    next
      case (Inr p)
      have eq: "codes_of sv (x # cs) - seen = insert ?c (codes_of sv cs - insert ?c seen)"
        using False by (auto simp: codes_of_def x)
      have "?c \<notin> codes_of sv cs - insert ?c seen" by simp
      with fin have card: "card (codes_of sv (x # cs) - seen) = Suc (card (codes_of sv cs - insert ?c seen))"
        unfolding eq by (subst card_insert_disjoint) auto
      from Cons.prems have "finite (insert ?c seen)" by simp
      from Cons.IH [OF this, of "handle_result sv p ?c res m"] handle_outbox [of sv p ?c res m]
      show ?thesis using False Inr card by (simp add: x loop_simps)
    qed
  qed
qed

lemma loop_first_per_code:
  "verification_loop sv found cs seen m = verification_loop sv found (first_per_code sv cs seen) seen m"
proof (induction cs arbitrary: seen m)
  case Nil
  then show ?case by simp
next
  case (Cons x cs)
  obtain raw res where x: "x = (raw, res)" by (cases x)
  show ?case
  proof (cases "clean_code (py_repr sv) raw \<in> seen")
    case True
    with Cons show ?thesis by (simp add: x loop_simps)
  next
    case False
    show ?thesis
    proof (cases "py_lookup found raw")
      case (Inl e)
      with False show ?thesis by (simp add: x loop_simps)
    next
      case (Inr p)
      with False Cons [of "insert (clean_code (py_repr sv) raw) seen"] show ?thesis
        by (simp add: x loop_simps)
    qed
  qed
qed

lemma records_not_before: "\<not> in_stock_before store c \<Longrightarrow> \<not> records_in_stock store c"
  by (auto simp: in_stock_before_def records_in_stock_def split: option.splits)


text \<open>
  C1. A verification that meets HTTP 403 returns the flag \<open>None\<close>; handling a result
  with that flag returns the monitor as it is (nothing is sent, nothing is stored); and
  over the whole loop of a cycle, whatever the other completions are, the store's entry
  for a code all of whose completions carry that flag is what it was before, so a record
  with \<^verbatim>\<open>in_stock: true\<close> is still one.
\<close>

theorem forbidden_result_is_skipped:
  "(status_code resp = 403 \<longrightarrow> verify_stock repr search (Returned resp) = (None, ''403''))
   \<and> (fst res = None \<longrightarrow> handle_result sv p c res m = m)
   \<and> ((\<forall>x \<in> set cs. clean_code (py_repr sv) (fst x) = c \<longrightarrow> fst (snd x) = None) \<longrightarrow>
        field (stock_state (snd (verification_loop sv found cs seen m))) c = field (stock_state m) c
        \<and> (records_in_stock (stock_state m) c \<longrightarrow>
             records_in_stock (stock_state (snd (verification_loop sv found cs seen m))) c))"
proof (intro conjI impI)
  assume "status_code resp = 403"
  then show "verify_stock repr search (Returned resp) = (None, ''403'')"
    by (simp add: verify_stock_def)
next
  assume "fst res = None"
  then show "handle_result sv p c res m = m" by (rule handle_none)
next
  assume a: "\<forall>x \<in> set cs. clean_code (py_repr sv) (fst x) = c \<longrightarrow> fst (snd x) = None"
  then show k: "field (stock_state (snd (verification_loop sv found cs seen m))) c = field (stock_state m) c"
    by (intro loop_entry_kept) simp
  assume "records_in_stock (stock_state m) c"
  with k show "records_in_stock (stock_state (snd (verification_loop sv found cs seen m))) c"
    by (simp add: records_in_stock_def)
qed

text \<open>
  C1, at a cycle whose only product has a record with \<^verbatim>\<open>in_stock: true\<close> and whose
  detail page answers 403: the loop ends with the monitor it started with.
\<close>

theorem forbidden_result_is_skipped_witness:
  "status_code forbidden_page = 403
   \<and> fst (verify_stock plain_repr (parsed_as sample_state) (Returned forbidden_page)) = None
   \<and> records_in_stock (stock_state stocked) ''A1''
   \<and> verification_loop good_service [(''A1'', shirt)]
        [(JStr ''A1'', verify_stock plain_repr (parsed_as sample_state) (Returned forbidden_page))] {} stocked
       = (None, stocked)
   \<and> records_in_stock (stock_state (snd (verification_loop good_service [(''A1'', shirt)]
        [(JStr ''A1'', verify_stock plain_repr (parsed_as sample_state) (Returned forbidden_page))] {} stocked))) ''A1''"
proof -
  let ?r = "verify_stock plain_repr (parsed_as sample_state) (Returned forbidden_page)"
  note t = forbidden_result_is_skipped
    [of forbidden_page plain_repr "parsed_as sample_state" ?r good_service shirt "''A1''" stocked
        "[(JStr ''A1'', ?r)]" "[(''A1'', shirt)]" "{}"]
  have s: "status_code forbidden_page = 403" by (simp add: forbidden_page_def)
  from t s have v: "?r = (None, ''403'')" by blast
  have q: "\<forall>x \<in> set [(JStr ''A1'', ?r)].
         clean_code (py_repr good_service) (fst x) = ''A1'' \<longrightarrow> fst (snd x) = None"
    by (simp add: v)
  have r: "records_in_stock (stock_state stocked) ''A1''"
    by (simp add: stocked_def records_in_stock_def)
  from t [THEN conjunct2, THEN conjunct2, THEN mp, OF q] r
  have k: "records_in_stock (stock_state (snd (verification_loop good_service [(''A1'', shirt)]
        [(JStr ''A1'', ?r)] {} stocked))) ''A1''"
    by blast
  have l: "verification_loop good_service [(''A1'', shirt)] [(JStr ''A1'', ?r)] {} stocked = (None, stocked)"
    by (simp add: v loop_simps clean_code_def strip_def is_space_def good_service_def shirt_def handle_none)
  from s v r k l show ?thesis by simp
qed

text \<open>
  C2. When the loop reaches the completion of a product that was not in stock (no record,
  or a record whose \<^verbatim>\<open>in_stock\<close> is falsy) and the verifier reports it in stock,
  one notification is sent; the store records \<^verbatim>\<open>in_stock: true\<close> for the code
  exactly when the send returns true, and is then saved; when the send returns false the
  store and the file are what they were. The rest of the loop leaves the entry alone.
\<close>

theorem restock_recorded_iff_delivered:
  assumes "py_lookup found raw = Inr p"
    and "clean_code (py_repr sv) raw = c"
    and "c \<notin> seen"
    and "fst res = Some True"
    and "entry_ok (stock_state m) c"
    and "\<not> in_stock_before (stock_state m) c"
  shows "let ok = fst (send_telegram_message (telegram sv) (restock_text (py_repr sv) p (snd res))
                         (image p) (Some (category p)) m);
             m1 = handle_result sv p c res m;
             m' = snd (verification_loop sv found ((raw, res) # rest) seen m)
         in outbox m1 = outbox m @ [restock_message sv p (snd res)]
            \<and> (records_in_stock (stock_state m1) c \<longleftrightarrow> ok)
            \<and> (ok \<longrightarrow> field (stock_state m1) c = Some (in_stock_record (snd res))
                       \<and> state_file m1 = Some (stock_state m1))
            \<and> (\<not> ok \<longrightarrow> stock_state m1 = stock_state m \<and> state_file m1 = state_file m)
            \<and> field (stock_state m') c = field (stock_state m1) c"
proof -
  from assms(5) obtain st where st: "stock_state m = JObj st"
    by (auto simp: entry_ok_def elim: is_objE)
  from get2_entry [OF assms(5)] assms(6) obtain prev
    where g: "get2 (JObj st) c (JObj []) ''in_stock'' (JBool False) = Inr prev" and np: "\<not> truthy prev"
    by (auto simp: st)
  note h = handle_restock [OF assms(4) st g np, of sv p]
  have ok: "fst (send_telegram_message (telegram sv) (restock_text (py_repr sv) p (snd res))
                         (image p) (Some (category p)) m)
            = delivered (telegram sv (length (outbox m))) (image p)"
    by (simp add: send_telegram_message_def)
  have nr: "\<not> records_in_stock (JObj st) c"
    using records_not_before [OF assms(6)] by (simp add: st)
  have rest: "field (stock_state (snd (verification_loop sv found ((raw, res) # rest) seen m))) c
        = field (stock_state (handle_result sv p c res m)) c"
    using assms(1,2,3) loop_entry_kept [of c "insert c seen" rest sv found "handle_result sv p c res m"]
    by (simp add: loop_simps)
  show ?thesis
  proof (cases "delivered (telegram sv (length (outbox m))) (image p)")
    case True
    with h ok rest show ?thesis
      by (simp add: Let_def records_in_stock_def in_stock_record_def update_conv')
  next
    case False
    with h ok rest nr st show ?thesis
      by (simp add: Let_def)
  qed
qed

text \<open>
  C2, for a product without a record: with a messaging service that fails the store stays
  empty, and the one notification has been attempted.
\<close>

theorem restock_recorded_iff_delivered_witness:
  "py_lookup [(''A1'', shirt)] (JStr ''A1'') = Inr shirt
   \<and> clean_code (py_repr bad_service) (JStr ''A1'') = ''A1''
   \<and> ''A1'' \<notin> ({} :: string set)
   \<and> fst (Some True, ''M (3)'') = Some True
   \<and> entry_ok (stock_state fresh) ''A1''
   \<and> \<not> in_stock_before (stock_state fresh) ''A1''
   \<and> \<not> fst (send_telegram_message (telegram bad_service)
               (restock_text (py_repr bad_service) shirt ''M (3)'') (image shirt) (Some (category shirt)) fresh)
   \<and> stock_state (handle_result bad_service shirt ''A1'' (Some True, ''M (3)'') fresh) = JObj []
   \<and> outbox (handle_result bad_service shirt ''A1'' (Some True, ''M (3)'') fresh)
       = [restock_message bad_service shirt ''M (3)'']
   \<and> \<not> records_in_stock (stock_state (handle_result bad_service shirt ''A1'' (Some True, ''M (3)'') fresh)) ''A1''"
proof -
  have h: "py_lookup [(''A1'', shirt)] (JStr ''A1'') = Inr shirt"
    "clean_code (py_repr bad_service) (JStr ''A1'') = ''A1''"
    "''A1'' \<notin> ({} :: string set)"
    "fst (Some True, ''M (3)'') = Some True"
    "entry_ok (stock_state fresh) ''A1''"
    "\<not> in_stock_before (stock_state fresh) ''A1''"
    by (simp_all add: clean_code_def strip_def is_space_def bad_service_def fresh_def entry_ok_def
        in_stock_before_def)
  have d: "\<not> fst (send_telegram_message (telegram bad_service)
               (restock_text (py_repr bad_service) shirt ''M (3)'') (image shirt) (Some (category shirt)) fresh)"
    by (simp add: send_telegram_message_def delivered_def bad_service_def none_delivered_def shirt_def
        numeral_3_eq_3)
  from restock_recorded_iff_delivered [OF h, of "[]"] d
  have "stock_state (handle_result bad_service shirt ''A1'' (Some True, ''M (3)'') fresh) = JObj []
     \<and> outbox (handle_result bad_service shirt ''A1'' (Some True, ''M (3)'') fresh)
       = [restock_message bad_service shirt ''M (3)'']
     \<and> \<not> records_in_stock (stock_state (handle_result bad_service shirt ''A1'' (Some True, ''M (3)'') fresh)) ''A1''"
    by (simp add: Let_def fresh_def records_in_stock_def)
  with h d show ?thesis by (simp add: records_in_stock_def)
qed



text \<open>
  C9. A completion whose clean code has been processed in this cycle is skipped: the loop
  over a list of completions does what it does over the first completion of each code, so
  a duplicate changes nothing. The loop sends at most one notification for each clean code
  it has not seen, and never changes the entry of a code it has seen.
\<close>

theorem duplicate_result_is_ignored:
  "(clean_code (py_repr sv) raw \<in> seen \<longrightarrow>
      verification_loop sv found ((raw, res) # rest) seen m = verification_loop sv found rest seen m)
   \<and> verification_loop sv found ((raw, res) # (raw, res) # rest) seen m
       = verification_loop sv found ((raw, res) # rest) seen m
   \<and> verification_loop sv found cs seen m = verification_loop sv found (first_per_code sv cs seen) seen m
   \<and> (finite seen \<longrightarrow>
        length (outbox (snd (verification_loop sv found cs seen m)))
          \<le> length (outbox m) + card (codes_of sv cs - seen))
   \<and> (c \<in> seen \<longrightarrow>
        field (stock_state (snd (verification_loop sv found cs seen m))) c = field (stock_state m) c)"
proof (intro conjI impI)
  assume "clean_code (py_repr sv) raw \<in> seen"
  then show "verification_loop sv found ((raw, res) # rest) seen m = verification_loop sv found rest seen m"
    by (rule loop_seen)
next
  show "verification_loop sv found ((raw, res) # (raw, res) # rest) seen m
       = verification_loop sv found ((raw, res) # rest) seen m"
    by (subst loop_first_per_code, subst (2) loop_first_per_code) simp
next
  show "verification_loop sv found cs seen m = verification_loop sv found (first_per_code sv cs seen) seen m"
    by (rule loop_first_per_code)
next
  assume "finite seen"
  then show "length (outbox (snd (verification_loop sv found cs seen m)))
          \<le> length (outbox m) + card (codes_of sv cs - seen)"
    by (rule loop_outbox)
next
  assume "c \<in> seen"
  then show "field (stock_state (snd (verification_loop sv found cs seen m))) c = field (stock_state m) c"
    by (intro loop_entry_kept) simp
qed

text \<open>
  C9, for a task submitted twice: one notification is sent and one record is written.
\<close>

theorem duplicate_result_is_ignored_witness:
  "finite ({} :: string set)
   \<and> codes_of good_service [(JStr ''A1'', (Some True, ''M (3)'')), (JStr ''A1'', (Some True, ''M (3)''))] = {''A1''}
   \<and> verification_loop good_service [(''A1'', shirt)]
        [(JStr ''A1'', (Some True, ''M (3)'')), (JStr ''A1'', (Some True, ''M (3)''))] {} fresh
       = verification_loop good_service [(''A1'', shirt)] [(JStr ''A1'', (Some True, ''M (3)''))] {} fresh
   \<and> length (outbox (snd (verification_loop good_service [(''A1'', shirt)]
        [(JStr ''A1'', (Some True, ''M (3)'')), (JStr ''A1'', (Some True, ''M (3)''))] {} fresh))) \<le> 1"
proof -
  have c: "codes_of good_service [(JStr ''A1'', (Some True, ''M (3)'')), (JStr ''A1'', (Some True, ''M (3)''))] = {''A1''}"
    by (simp add: codes_of_def clean_code_def strip_def is_space_def good_service_def)
  note t = duplicate_result_is_ignored
    [of good_service "JStr ''A1''" "{}" "[(''A1'', shirt)]" "(Some True, ''M (3)'')" "[]" fresh
        "[(JStr ''A1'', (Some True, ''M (3)'')), (JStr ''A1'', (Some True, ''M (3)''))]" "''A1''"]
  have a: "verification_loop good_service [(''A1'', shirt)]
        [(JStr ''A1'', (Some True, ''M (3)'')), (JStr ''A1'', (Some True, ''M (3)''))] {} fresh
       = verification_loop good_service [(''A1'', shirt)] [(JStr ''A1'', (Some True, ''M (3)''))] {} fresh"
    by (rule t [THEN conjunct2, THEN conjunct1])
  have "length (outbox (snd (verification_loop good_service [(''A1'', shirt)]
        [(JStr ''A1'', (Some True, ''M (3)'')), (JStr ''A1'', (Some True, ''M (3)''))] {} fresh)))
      \<le> length (outbox fresh) + card (codes_of good_service
        [(JStr ''A1'', (Some True, ''M (3)'')), (JStr ''A1'', (Some True, ''M (3)''))] - {})"
    by (rule t [THEN conjunct2, THEN conjunct2, THEN conjunct2, THEN conjunct1, rule_format]) simp
  then have b: "length (outbox (snd (verification_loop good_service [(''A1'', shirt)]
        [(JStr ''A1'', (Some True, ''M (3)'')), (JStr ''A1'', (Some True, ''M (3)''))] {} fresh))) \<le> 1"
    unfolding c by (simp add: fresh_def)
  from a b c show ?thesis by simp
qed

section \<open>The product parser\<close>










lemma parse_product_code:
  assumes "parse_product repr p d g = Inr d'"
  shows "d' = d \<or> (\<exists>c r. truthy c \<and> hashable c \<and> code r = c \<and> d' = dict_set d c r)"
proof -
  from assms obtain c where c: "py_get p ''code'' JNull = Inr c"
    by (auto simp: parse_product_def thn_eq_Inr)
  show ?thesis
  proof (cases "truthy c")
    case False
    with assms c show ?thesis by (simp add: parse_product_def)
  next
    case True
    with assms c have "\<exists>mrp img nm u.
        py_setitem d c \<lparr>code = c, name = nm, price = mrp, image = img, url = u, category = g\<rparr> = Inr d'"
      by (auto simp: parse_product_def thn_eq_Inr)
    then obtain r where "code r = c" "py_setitem d c r = Inr d'"
      by force
    with True show ?thesis
      by (auto simp: py_setitem_def split: if_splits)
  qed
qed


















section \<open>Discovery\<close>

lemma fetch_attempts_failed:
  "(\<forall>j < n. attempt_failed (attempts (i + j))) \<Longrightarrow> fetch_attempts attempts i n = JNull"
proof (induction n arbitrary: i)
  case 0
  then show ?case by simp
next
  case (Suc n)
  from Suc.prems [rule_format, of 0] have f: "attempt_failed (attempts i)" by simp
  have "\<forall>j < n. attempt_failed (attempts (Suc i + j))"
    using Suc.prems [rule_format, of "Suc j" for j] by simp
  from Suc.IH [OF this] f show ?case
    by (auto simp: attempt_failed_def split: page_attempt.splits)
qed

lemma merge_pages_skip:
  "merge_pages repr fetched_page pgs d g = merge_pages repr fetched_page (succeeded fetched_page pgs) d g"
proof (induction pgs arbitrary: d)
  case Nil
  then show ?case by (simp add: succeeded_def)
next
  case (Cons pg pgs)
  show ?case
  proof (cases "fetched_page pg = JNull")
    case True
    with Cons [of d] show ?thesis by (simp add: succeeded_def)
  next
    case False
    have "merge_pages repr fetched_page (succeeded fetched_page (pg # pgs)) d g
        = merge_pages repr fetched_page (pg # succeeded fetched_page pgs) d g"
      using False by (simp add: succeeded_def)
    also have "\<dots> = merge_pages repr fetched_page (pg # pgs) d g"
      unfolding merge_pages.simps Cons [symmetric] ..
    finally show ?thesis by simp
  qed
qed

lemma discovery_skip:
  "fetch_products_for_gender repr attempts order g
   = fetch_products_for_gender repr attempts (without_failed (page_data attempts) order) g"
  unfolding fetch_products_for_gender_def without_failed_def merge_pages_skip [symmetric] ..

text \<open>
  C8, as the claim states it, fails at page 1: with a first page that cannot be fetched
  and a second page that can and holds a product, discovery returns the empty mapping.
\<close>

theorem first_page_counterexample:
  "page_data page1_down 1 = JNull
   \<and> page_data page1_down 2 = listing_page
   \<and> merge_pages plain_repr (page_data page1_down) [2] [] ''Men'' = Inr [(JStr ''A1'', priced_record)]
   \<and> fetch_products_for_gender plain_repr page1_down in_order ''Men'' = Inr []"
  by (simp add: page_data_def fetch_page_def MAX_RETRIES_def numeral_3_eq_3 page1_down_def
      fetch_products_for_gender_def listing_page_def priced_entry_def priced_record_def
      parse_product_def parse_price_def parse_image_def has_images_def in2_def getitem2_def
      py_setitem_def)

text \<open>
  C8, amended. A page whose attempts all fail is returned as \<^verbatim>\<open>None\<close> by
  \<^verbatim>\<open>fetch_page\<close>. When that page is page 1, discovery returns the empty mapping for
  the filter and raises nothing. Any other such page is skipped: the loop over the
  completed fetches, and with it discovery, gives what it gives with the failed pages
  taken out of the completion list, that is the products of the pages that succeeded.
\<close>

theorem failed_pages_are_skipped:
  "((\<forall>i < MAX_RETRIES. attempt_failed (attempts pg i)) \<longrightarrow> page_data attempts pg = JNull)
   \<and> (page_data attempts 1 = JNull \<longrightarrow> fetch_products_for_gender repr attempts order g = Inr [])
   \<and> merge_pages repr fetched_page pgs d g
       = merge_pages repr fetched_page (succeeded fetched_page pgs) d g
   \<and> fetch_products_for_gender repr attempts order g
       = fetch_products_for_gender repr attempts (without_failed (page_data attempts) order) g"
proof (intro conjI impI)
  assume "\<forall>i < MAX_RETRIES. attempt_failed (attempts pg i)"
  then show "page_data attempts pg = JNull"
    using fetch_attempts_failed [of MAX_RETRIES "attempts pg" 0]
    by (simp add: page_data_def fetch_page_def)
next
  assume "page_data attempts 1 = JNull"
  then show "fetch_products_for_gender repr attempts order g = Inr []"
    by (simp add: fetch_products_for_gender_def)
next
  show "merge_pages repr fetched_page pgs d g
       = merge_pages repr fetched_page (succeeded fetched_page pgs) d g"
    by (rule merge_pages_skip)
next
  show "fetch_products_for_gender repr attempts order g
       = fetch_products_for_gender repr attempts (without_failed (page_data attempts) order) g"
    by (rule discovery_skip)
qed

text \<open>
  C8, amended, at a listing of two pages whose second page is refused three times:
  discovery returns the product of page 1.
\<close>

theorem failed_pages_are_skipped_witness:
  "page_data page2_refused 2 = JNull
   \<and> succeeded (page_data page2_refused) (in_order [2..2]) = []
   \<and> fetch_products_for_gender plain_repr page2_refused in_order ''Men'' = Inr [(JStr ''A1'', priced_record)]
   \<and> page_data page1_down 1 = JNull
   \<and> fetch_products_for_gender plain_repr page1_down in_order ''Men'' = Inr []"
proof -
  note t1 = failed_pages_are_skipped [of page1_down 1 plain_repr in_order "''Men''"]
  have "\<forall>i < MAX_RETRIES. attempt_failed (page1_down 1 i)"
    by (simp add: attempt_failed_def page1_down_def)
  with t1 have c: "page_data page1_down 1 = JNull" by blast
  with t1 have e: "fetch_products_for_gender plain_repr page1_down in_order ''Men'' = Inr []" by blast
  note t = failed_pages_are_skipped [of page2_refused 2 plain_repr in_order "''Men''"]
  have "\<forall>i < MAX_RETRIES. attempt_failed (page2_refused 2 i)"
    by (simp add: attempt_failed_def page2_refused_def)
  with t have a: "page_data page2_refused 2 = JNull" by blast
  then have b: "succeeded (page_data page2_refused) (in_order [2..2]) = []"
    by (simp add: succeeded_def in_order_def)
  from a have b': "succeeded (page_data page2_refused) (in_order [2]) = []"
    by (simp add: succeeded_def in_order_def)
  have p1: "page_data page2_refused 1 = listing_page"
    by (simp add: page_data_def fetch_page_def MAX_RETRIES_def numeral_3_eq_3 page2_refused_def)
  have "fetch_products_for_gender plain_repr page2_refused (without_failed (page_data page2_refused) in_order) ''Men''
        = Inr [(JStr ''A1'', priced_record)]"
    by (simp add: fetch_products_for_gender_def p1 page_count_def first_page_products_def
        without_failed_def b' listing_page_def priced_entry_def priced_record_def
        parse_product_def parse_price_def parse_image_def has_images_def in2_def getitem2_def
        py_setitem_def)
  with t have "fetch_products_for_gender plain_repr page2_refused in_order ''Men'' = Inr [(JStr ''A1'', priced_record)]"
    by simp
  with a b c e show ?thesis by simp
qed

section \<open>What discovery guarantees\<close>

lemma strip_idem: "strip (strip s) = strip s"
proof -
  let ?t = "dropWhile is_space s"
  let ?w = "dropWhile is_space (rev ?t)"
  have w: "dropWhile is_space ?w = ?w" by simp
  have "dropWhile is_space (rev ?w) = rev ?w"
  proof (cases "?w = []")
    case True
    show ?thesis unfolding True by simp
  next
    case False
    have "rev ?t = takeWhile is_space (rev ?t) @ ?w" by simp
    then have "?t = rev ?w @ rev (takeWhile is_space (rev ?t))"
      by (metis rev_append rev_rev_ident)
    with False have "hd (rev ?w) = hd ?t" and "?t \<noteq> []"
      by (metis hd_append2 rev_is_Nil_conv, metis Nil_is_append_conv rev_is_Nil_conv)
    with hd_dropWhile [of is_space s] have "\<not> is_space (hd (rev ?w))" by simp
    then show ?thesis by (simp add: dropWhile_eq_self_iff)
  qed
  then show ?thesis by (simp add: strip_def)
qed

lemma key_norm_JStr: "key_norm k = JStr s \<Longrightarrow> k = JStr s"
  by (cases k) (auto split: if_splits)

lemma dict_set_ok:
  "prods_ok d \<Longrightarrow> hashable (code r) \<Longrightarrow> prods_ok (dict_set d (code r) r)"
  by (induction d) (auto simp: prods_ok_def)

lemma parse_product_ok:
  assumes "prods_ok d" and "parse_product repr p d g = Inr d'"
  shows "prods_ok d'"
  using parse_product_code [OF assms(2)] assms(1) dict_set_ok by auto

lemma parse_all_ok:
  "prods_ok d \<Longrightarrow> parse_all repr ps d g = Inr d' \<Longrightarrow> prods_ok d'"
proof (induction ps arbitrary: d)
  case Nil
  then show ?case by simp
next
  case (Cons p ps)
  from Cons.prems(2) obtain d1 where d1: "parse_product repr p d g = Inr d1"
      and r: "parse_all repr ps d1 g = Inr d'"
    by (auto simp: thn_eq_Inr)
  from parse_product_ok [OF Cons.prems(1) d1] r show ?case by (rule Cons.IH)
qed

lemma merge_pages_ok:
  "prods_ok d \<Longrightarrow> merge_pages repr fetched_page pgs d g = Inr d' \<Longrightarrow> prods_ok d'"
proof (induction pgs arbitrary: d)
  case Nil
  then show ?case by simp
next
  case (Cons pg pgs)
  from Cons.prems(2) obtain ok where ok:
      "(if ok then
         thn (py_getitem (fetched_page pg) ''products'') (\<lambda>ps.
         thn (py_len ps) (\<lambda>count.
         thn (py_iter ps) (\<lambda>entries.
         thn (parse_all repr entries d g) (\<lambda>products'.
           merge_pages repr fetched_page pgs products' g))))
       else merge_pages repr fetched_page pgs d g) = Inr d'"
    by (auto simp: thn_eq_Inr)
  show ?case
  proof (cases ok)
    case False
    with ok have "merge_pages repr fetched_page pgs d g = Inr d'" by simp
    with Cons.prems(1) show ?thesis by (rule Cons.IH)
  next
    case True
    with ok obtain entries d1 where "parse_all repr entries d g = Inr d1"
        and r: "merge_pages repr fetched_page pgs d1 g = Inr d'"
      by (auto simp: thn_eq_Inr)
    from parse_all_ok [OF Cons.prems(1) this(1)] r show ?thesis by (rule Cons.IH)
  qed
qed

lemma first_page_products_ok:
  assumes "first_page_products repr data g = Inr d"
  shows "prods_ok d"
proof -
  have e: "prods_ok []" by (simp add: prods_ok_def)
  from assms obtain b where b: "py_in ''products'' data = Inr b"
    by (auto simp: first_page_products_def thn_eq_Inr)
  show ?thesis
  proof (cases b)
    case False
    with assms b e show ?thesis by (simp add: first_page_products_def)
  next
    case True
    with assms b obtain entries where "parse_all repr entries [] g = Inr d"
      by (auto simp: first_page_products_def thn_eq_Inr)
    with e show ?thesis by (rule parse_all_ok)
  qed
qed

lemma fetch_products_ok:
  assumes "fetch_products_for_gender repr attempts order g = Inr d"
  shows "prods_ok d"
proof (cases "truthy (page_data attempts 1)")
  case False
  with assms show ?thesis by (simp add: fetch_products_for_gender_def prods_ok_def)
next
  case True
  with assms obtain total d1 more where d1: "first_page_products repr (page_data attempts 1) g = Inr d1"
      and r: "(if more then merge_pages repr (page_data attempts) (order [2..last_page total]) d1 g
               else Inr d1) = Inr d"
    by (auto simp: fetch_products_for_gender_def thn_eq_Inr Let_def)
  from first_page_products_ok [OF d1] r merge_pages_ok show ?thesis
    by (cases more) auto
qed

lemma update_member:
  "(k', v') \<in> set (AList.update k v al) \<Longrightarrow> (k', v') = (k, v) \<or> (k', v') \<in> set al"
  by (induction al) (auto split: if_splits)

lemma merge_found_ok:
  "found_ok f \<Longrightarrow> prods_ok d \<Longrightarrow> found_ok (merge_found repr d f)"
proof (induction d arbitrary: f)
  case Nil
  then show ?case by simp
next
  case (Cons kv d)
  obtain k v where kv: "kv = (k, v)" by (cases kv)
  from Cons.prems(2) have h: "hashable (code v)" and n: "key_norm k = key_norm (code v)"
      and d: "prods_ok d"
    by (simp_all add: prods_ok_def kv)
  have s: "case code v of JStr s \<Rightarrow> clean_code repr k = strip s | _ \<Rightarrow> True"
  proof (cases "code v")
    case (JStr s)
    with n have "k = JStr s" by (simp add: key_norm_JStr)
    with JStr show ?thesis by (simp add: clean_code_def)
  qed simp_all
  from Cons.prems(1) have d1: "distinct (map fst (AList.update (clean_code repr k) v f))"
    by (simp add: found_ok_def distinct_update)
  have a1: "\<forall>kr \<in> set (AList.update (clean_code repr k) v f).
         strip (fst kr) = fst kr \<and> hashable (code (snd kr))
         \<and> (case code (snd kr) of JStr s \<Rightarrow> fst kr = strip s | _ \<Rightarrow> True)"
  proof (rule ballI)
    fix kr assume "kr \<in> set (AList.update (clean_code repr k) v f)"
    then have "kr = (clean_code repr k, v) \<or> kr \<in> set f"
      using update_member [of "fst kr" "snd kr"] by simp
    then show "strip (fst kr) = fst kr \<and> hashable (code (snd kr))
         \<and> (case code (snd kr) of JStr s \<Rightarrow> fst kr = strip s | _ \<Rightarrow> True)"
    proof
      assume e: "kr = (clean_code repr k, v)"
      have "strip (clean_code repr k) = clean_code repr k"
        by (simp add: clean_code_def strip_idem)
      with h s show ?thesis unfolding e by (cases "code v") simp_all
    next
      assume "kr \<in> set f"
      with Cons.prems(1) show ?thesis by (simp add: found_ok_def list_all_iff)
    qed
  qed
  from d1 a1 have "found_ok (AList.update (clean_code repr k) v f)"
    by (simp add: found_ok_def list_all_iff)
  from Cons.IH [OF this d] show ?case by (simp add: kv)
qed

lemma found_ok_string:
  assumes "found_ok f" and "(k, r) \<in> set f" and "code r = JStr s"
  shows "k = strip s"
proof -
  from assms(1,2) have "case code (snd (k, r)) of JStr s \<Rightarrow> fst (k, r) = strip s | _ \<Rightarrow> True"
    unfolding found_ok_def list_all_iff by blast
  with assms(3) show ?thesis by simp
qed

lemma discover_ok:
  "found_ok f \<Longrightarrow> discover sv e gs f = Inr f' \<Longrightarrow> found_ok f'"
proof (induction gs arbitrary: f)
  case Nil
  then show ?case by simp
next
  case (Cons g gs)
  from Cons.prems(2) obtain prods
    where p: "fetch_products_for_gender (py_repr sv) (listing e g) (page_order e) g = Inr prods"
      and r: "discover sv e gs (merge_found (py_repr sv) prods f) = Inr f'"
    by (auto simp: thn_eq_Inr)
  from merge_found_ok [OF Cons.prems(1) fetch_products_ok [OF p]] r show ?case
    by (rule Cons.IH)
qed

section \<open>The product lookup of the verification loop\<close>

lemma py_lookup_hashable:
  "hashable raw \<Longrightarrow> py_lookup found raw = Inl e \<Longrightarrow> e = KeyError"
  by (cases raw) (auto split: option.splits)

lemma py_lookup_Inr:
  "py_lookup found raw = Inr p \<Longrightarrow> \<exists>s. raw = JStr s \<and> map_of found s = Some p"
  by (cases raw) (auto split: option.splits)

lemma loop_untrimmed:
  assumes ok: "found_ok found"
    and bad: "(k, r) \<in> set found" "code r = JStr s" "strip s \<noteq> s"
  shows "(JStr s, res) \<in> set cs \<Longrightarrow> strip s \<notin> seen \<Longrightarrow>
         \<forall>x \<in> set cs. \<exists>kr \<in> set found. fst x = code (snd kr) \<Longrightarrow>
         fst (verification_loop sv found cs seen m) = Some KeyError"
proof (induction cs arbitrary: seen m)
  case Nil
  then show ?case by simp
next
  case (Cons x cs)
  obtain raw res' where x: "x = (raw, res')" by (cases x)
  let ?c = "clean_code (py_repr sv) raw"
  from ok have dist: "distinct (map fst found)" by (simp add: found_ok_def)
  from ok bad(1,2) have k: "k = strip s"
    by (rule found_ok_string)
  from Cons.prems(3) obtain k' r' where r': "(k', r') \<in> set found" "raw = code r'"
    by (auto simp: x)
  with ok have hr: "hashable raw" by (auto simp: found_ok_def list_all_iff)
  show ?case
  proof (cases "?c \<in> seen")
    case True
    with Cons.prems(2) have "raw \<noteq> JStr s" by (auto simp: clean_code_def)
    with Cons.prems(1) have "(JStr s, res) \<in> set cs" by (simp add: x)
    from Cons.IH [OF this Cons.prems(2)] Cons.prems(3) True show ?thesis
      by (simp add: x loop_simps)
  next
    case False
    show ?thesis
    proof (cases "py_lookup found raw")
      case (Inl e)
      with py_lookup_hashable [OF hr Inl] False show ?thesis by (simp add: x loop_simps)
    next
      case (Inr p)
      then obtain s2 where s2: "raw = JStr s2" "map_of found s2 = Some p"
        by (auto dest: py_lookup_Inr)
      then have mem: "(s2, p) \<in> set found" by (auto dest: map_of_SomeD)
      with ok have t2: "strip s2 = s2" by (auto simp: found_ok_def list_all_iff)
      from r' s2 have "code r' = JStr s2" by simp
      with ok r'(1) have k': "k' = strip s2" by (rule found_ok_string)
      have ne: "s2 \<noteq> strip s"
      proof
        assume e: "s2 = strip s"
        with k' t2 k have "k' = k" by simp
        with dist r'(1) bad(1) have "r' = r" by (auto dest: eq_key_imp_eq_value)
        with r'(2) s2(1) bad(2) have "s2 = s" by simp
        with e bad(3) show False by simp
      qed
      then have "raw \<noteq> JStr s" using t2 s2(1) bad(3) by auto
      with Cons.prems(1) have in_cs: "(JStr s, res) \<in> set cs" by (simp add: x)
      have c: "?c = s2" by (simp add: s2 clean_code_def t2)
      from ne Cons.prems(2) have "strip s \<notin> insert ?c seen" by (simp add: c)
      from Cons.IH [OF in_cs this] Cons.prems(3) False Inr show ?thesis
        by (simp add: x loop_simps)
    qed
  qed
qed

lemma loop_trimmed:
  "\<forall>x \<in> set cs. \<exists>kr \<in> set found. fst x = JStr (fst kr) \<Longrightarrow>
   fst (verification_loop sv found cs seen m) = None"
proof (induction cs arbitrary: seen m)
  case Nil
  then show ?case by simp
next
  case (Cons x cs)
  obtain raw res where x: "x = (raw, res)" by (cases x)
  from Cons.prems obtain k r where "(k, r) \<in> set found" "raw = JStr k" by (auto simp: x)
  then obtain p where "py_lookup found raw = Inr p"
    by (cases "map_of found k") (auto simp: map_of_eq_None_iff image_iff)
  with Cons show ?case
    by (cases "clean_code (py_repr sv) raw \<in> seen") (simp_all add: x loop_simps)
qed

lemma trimmed_string:
  assumes "trimmed repr c"
  obtains t where "c = JStr t" and "strip t = t"
proof -
  from assms have c: "c = JStr (clean_code repr c)" by (simp add: trimmed_def)
  then have "clean_code repr c = strip (clean_code repr c)"
    by (metis clean_code_def py_str.simps(4))
  with c that show ?thesis by metis
qed

lemma run_cycle_found:
  assumes "discover sv e MONITORED_GENDERS [] = Inr found"
  shows "run_cycle sv e m =
     (if found = [] then (None, (daily_reset sv e m)\<lparr>cycle := cycle (daily_reset sv e m) + 1\<rparr>)
      else verification_loop sv found (verify_order e (verifications sv e found)) {}
             ((daily_reset sv e m)\<lparr>cycle := cycle (daily_reset sv e m) + 1\<rparr>))"
  using assms by (simp add: run_cycle_def Let_def)

text \<open>
  C10. The products of a cycle are looked up in the merged mapping by their raw codes.
  When every discovered identifier equals its trimmed form the loop raises nothing. When
  some discovered identifier is a string with leading or trailing white space the cycle
  ends with \<^verbatim>\<open>KeyError\<close>, whatever the order of the completions, and no later
  cycle starts.
\<close>

theorem untrimmed_identifier_aborts_cycle:
  assumes "discover sv e MONITORED_GENDERS [] = Inr found"
    and "set (verify_order e (verifications sv e found)) = set (verifications sv e found)"
  shows "((\<forall>kr \<in> set found. trimmed (py_repr sv) (code (snd kr))) \<longrightarrow> fst (run_cycle sv e m) = None)
       \<and> ((\<exists>kr \<in> set found. \<exists>s. code (snd kr) = JStr s \<and> strip s \<noteq> s) \<longrightarrow>
            fst (run_cycle sv e m) = Some KeyError
            \<and> run_cycles sv (e # es) m = run_cycle sv e m)"
proof (intro conjI impI)
  have "found_ok []" by (simp add: found_ok_def)
  from discover_ok [OF this assms(1)] have ok: "found_ok found" .
  let ?cs = "verify_order e (verifications sv e found)"
  let ?m = "(daily_reset sv e m)\<lparr>cycle := cycle (daily_reset sv e m) + 1\<rparr>"
  have tasks: "\<exists>kr \<in> set found. fst x = code (snd kr)" if "x \<in> set ?cs" for x
    using that unfolding assms(2) by (force simp: verifications_def)
  {
    assume a: "\<forall>kr \<in> set found. trimmed (py_repr sv) (code (snd kr))"
    have "\<exists>kr \<in> set found. fst x = JStr (fst kr)" if "x \<in> set ?cs" for x
    proof -
      from tasks [OF that] obtain k r where kr: "(k, r) \<in> set found" "fst x = code r" by auto
      with a have "trimmed (py_repr sv) (code r)" by auto
      then obtain t where t: "code r = JStr t" "strip t = t" by (rule trimmed_string)
      from found_ok_string [OF ok kr(1) t(1)] t(2) have "k = t" by simp
      with kr t show ?thesis by force
    qed
    then have "fst (verification_loop sv found ?cs {} ?m) = None"
      by (intro loop_trimmed) blast
    then show "fst (run_cycle sv e m) = None"
      by (simp add: run_cycle_found [OF assms(1)])
  }
  {
    assume b: "\<exists>kr \<in> set found. \<exists>s. code (snd kr) = JStr s \<and> strip s \<noteq> s"
    then obtain k r s where kr: "(k, r) \<in> set found" "code r = JStr s" "strip s \<noteq> s"
      by auto
    then have ne: "found \<noteq> []" by auto
    from kr(1,2) have "(JStr s, verify_stock (py_repr sv) (re_search sv) (detail e (JStr s)))
        \<in> set (verifications sv e found)"
      by (force simp: verifications_def)
    then have mem: "(JStr s, verify_stock (py_repr sv) (re_search sv) (detail e (JStr s))) \<in> set ?cs"
      unfolding assms(2) .
    have "fst (verification_loop sv found ?cs {} ?m) = Some KeyError"
      by (rule loop_untrimmed [OF ok kr mem]) (use tasks in auto)
    with ne show k: "fst (run_cycle sv e m) = Some KeyError"
      by (simp add: run_cycle_found [OF assms(1)])
    then show "run_cycles sv (e # es) m = run_cycle sv e m"
      by (cases "run_cycle sv e m") simp
  }
qed

lemma fetch_spaced:
  "fetch_page (spaced_listing ''Men'' pg) = spaced_page"
  "fetch_page (spaced_listing ''Women'' pg) = JNull"
  "fetch_page (plain_listing ''Men'' pg) = plain_page"
  "fetch_page (plain_listing ''Women'' pg) = JNull"
  by (simp_all add: fetch_page_def MAX_RETRIES_def numeral_3_eq_3 spaced_listing_def plain_listing_def)

lemma strip_A1: "strip ''A1'' = ''A1''" "strip '' A1'' = ''A1''"
  by (simp_all add: strip_def is_space_def)

lemma discover_spaced:
  "discover good_service spaced_cycle MONITORED_GENDERS [] = Inr [(''A1'', spaced_record)]"
  by (simp add: MONITORED_GENDERS_def spaced_cycle_def good_service_def
      fetch_products_for_gender_def page_data_def fetch_spaced spaced_page_def
      page_count_def first_page_products_def parse_product_def parse_price_def parse_image_def
      has_images_def in2_def py_setitem_def spaced_record_def clean_code_def strip_A1 plain_repr_def)

lemma discover_plain:
  "discover good_service plain_cycle MONITORED_GENDERS [] = Inr [(''A1'', plain_record)]"
  by (simp add: MONITORED_GENDERS_def plain_cycle_def good_service_def
      fetch_products_for_gender_def page_data_def fetch_spaced plain_page_def
      page_count_def first_page_products_def parse_product_def parse_price_def parse_image_def
      has_images_def in2_def py_setitem_def plain_record_def clean_code_def strip_A1 plain_repr_def)

text \<open>
  C10, at a cycle that discovers the code \<^verbatim>\<open>" A1"\<close> (the cycle ends with
  \<^verbatim>\<open>KeyError\<close>) and at the same cycle with the code \<^verbatim>\<open>"A1"\<close> (it ends normally).
\<close>

theorem untrimmed_identifier_aborts_cycle_witness:
  "discover good_service spaced_cycle MONITORED_GENDERS [] = Inr [(''A1'', spaced_record)]
   \<and> code spaced_record = JStr '' A1''
   \<and> fst (run_cycle good_service spaced_cycle fresh) = Some KeyError
   \<and> discover good_service plain_cycle MONITORED_GENDERS [] = Inr [(''A1'', plain_record)]
   \<and> trimmed (py_repr good_service) (code plain_record)
   \<and> fst (run_cycle good_service plain_cycle fresh) = None"
proof -
  have o1: "set (verify_order spaced_cycle (verifications good_service spaced_cycle [(''A1'', spaced_record)]))
      = set (verifications good_service spaced_cycle [(''A1'', spaced_record)])"
    by (simp add: spaced_cycle_def as_submitted_def)
  have o2: "set (verify_order plain_cycle (verifications good_service plain_cycle [(''A1'', plain_record)]))
      = set (verifications good_service plain_cycle [(''A1'', plain_record)])"
    by (simp add: plain_cycle_def as_submitted_def)
  have c: "code spaced_record = JStr '' A1''" by (simp add: spaced_record_def)
  have s: "strip '' A1'' \<noteq> '' A1''" by (simp add: strip_A1)
  have t: "trimmed (py_repr good_service) (code plain_record)"
    by (simp add: trimmed_def plain_record_def clean_code_def good_service_def strip_A1)
  from untrimmed_identifier_aborts_cycle [OF discover_spaced o1, of fresh "[]"] c s
  have a: "fst (run_cycle good_service spaced_cycle fresh) = Some KeyError" by simp
  from untrimmed_identifier_aborts_cycle [OF discover_plain o2, of fresh "[]"] t
  have b: "fst (run_cycle good_service plain_cycle fresh) = None" by simp
  from discover_spaced discover_plain c t a b show ?thesis by simp
qed

section \<open>The daily reset\<close>
















end
